theory Spec2Isabelle
  imports Complex_Main
begin

section \<open>Text metrics and layout\<close>

text \<open>
  A JavaScript string is a sequence of UTF-16 code units; \<open>length\<close>, \<open>substring\<close> and
  \<open>slice\<close> count code units, and the regular expression of the wrapping code has no
  \<open>u\<close> flag, so it sees code units too. A string is therefore a list of code units
  (natural numbers). JavaScript numbers are modelled as real numbers; the places where
  the source divides by a quantity that can be zero are written out case by case.
  The measurement context is the function \<open>measureText\<close>, which gives the width of a
  string in the current font.
\<close>

type_synonym jsstring = "nat list"

text \<open>The literal \<open>'...'\<close>: three full stops (code unit 46).\<close>

definition ellipsis :: jsstring where
  "ellipsis = [46, 46, 46]"

text \<open>
  The \<open>while (left < right)\<close> loop of \<open>getEllipsisText\<close>:
  \<^verbatim>\<open>
    mid = Math.floor((left + right + 1) / 2)
    const truncated = text.substring(0, mid) + ellipsis
    if (context.measureText(truncated).width <= maxWidth) left = mid else right = mid - 1
  \<close>
  It returns the final value of \<open>left\<close>.
\<close>

function ellipsisSearch ::
  "(jsstring \<Rightarrow> real) \<Rightarrow> jsstring \<Rightarrow> real \<Rightarrow> nat \<Rightarrow> nat \<Rightarrow> nat" where
  "ellipsisSearch measureText text maxWidth left right =
     (if left < right then
        (let mid = (left + right + 1) div 2 in
         if measureText (take mid text @ ellipsis) \<le> maxWidth
         then ellipsisSearch measureText text maxWidth mid right
         else ellipsisSearch measureText text maxWidth left (mid - 1))
      else left)"
  by pat_completeness auto
termination
  by (relation "measure (\<lambda>(m, t, w, l, r). r - l)") auto

definition getEllipsisText :: "(jsstring \<Rightarrow> real) \<Rightarrow> jsstring \<Rightarrow> real \<Rightarrow> jsstring" where
  "getEllipsisText measureText text maxWidth =
     (if measureText text \<le> maxWidth then text
      else take (ellipsisSearch measureText text maxWidth 0 (length text)) text @ ellipsis)"

text \<open>
  The trimming loop of the multi-line branch of \<open>drawRows\<close>:
  \<^verbatim>\<open>
    while (context.measureText(currentLine + '...').width > maxWidth) {
      currentLine = currentLine.slice(0, -1)
    }
  \<close>
  \<open>slice(0, -1)\<close> drops the last code unit and leaves the empty string empty, as
  \<open>butlast\<close> does. Nothing bounds the loop, so its result is optional: \<open>None\<close> is
  the loop that never exits.
\<close>

partial_function (option) trimLoop ::
  "(jsstring \<Rightarrow> real) \<Rightarrow> real \<Rightarrow> jsstring \<Rightarrow> jsstring option" where
  "trimLoop measureText maxWidth currentLine =
     (if measureText (currentLine @ ellipsis) > maxWidth
      then trimLoop measureText maxWidth (butlast currentLine)
      else Some currentLine)"

subsection \<open>Word splitting\<close>

text \<open>
  The array \<open>words\<close> is \<open>text.split(re)\<close>, where the regular expression \<open>re\<close> is an
  alternation of four zero-width assertions: a look-behind and a look-ahead for one
  code unit of the range U+4E00 to U+9FA5 (CJK ideographs), and a look-behind and a
  look-ahead for one white-space character (the class written backslash-s). The split
  cuts the text at every inner position whose left or right neighbour is in one of the
  two classes. A zero-width match never cuts at position 0 or at the end, and the empty
  string splits into the one-element array holding the empty string.
\<close>

definition isCJK :: "nat \<Rightarrow> bool" where
  "isCJK c = (19968 \<le> c \<and> c \<le> 40869)"

definition isSpace :: "nat \<Rightarrow> bool" where
  "isSpace c =
     (c = 9 \<or> c = 10 \<or> c = 11 \<or> c = 12 \<or> c = 13 \<or> c = 32 \<or> c = 160 \<or> c = 5760
      \<or> (8192 \<le> c \<and> c \<le> 8202) \<or> c = 8232 \<or> c = 8233 \<or> c = 8239 \<or> c = 8287
      \<or> c = 12288 \<or> c = 65279)"

definition boundary :: "nat \<Rightarrow> nat \<Rightarrow> bool" where
  "boundary c d = (isCJK c \<or> isCJK d \<or> isSpace c \<or> isSpace d)"

fun splitWords :: "jsstring \<Rightarrow> jsstring list" where
  "splitWords [] = [[]]"
| "splitWords [c] = [[c]]"
| "splitWords (c # d # cs) =
     (if boundary c d then [c] # splitWords (d # cs)
      else (case splitWords (d # cs) of
              [] \<Rightarrow> [[c]]
            | p # ps \<Rightarrow> (c # p) # ps))"

text \<open>\<open>Array.prototype.indexOf\<close>: the first index of an equal element, or \<open>-1\<close>.\<close>

fun indexOf :: "'a list \<Rightarrow> 'a \<Rightarrow> int" where
  "indexOf [] x = -1"
| "indexOf (y # ys) x =
     (if y = x then 0
      else (let r = indexOf ys x in if r < 0 then -1 else r + 1))"

subsection \<open>Wrapping\<close>

text \<open>
  The \<open>for (let word of words)\<close> loop of the multi-line branch of \<open>drawRows\<close>. The
  arguments are the whole array \<open>words\<close> (for \<open>words.indexOf\<close> and \<open>words.length\<close>),
  the words still to visit, and the variables \<open>lines\<close> and \<open>currentLine\<close>; the result is
  the value of the two variables when the loop is left (by exhaustion or by \<open>break\<close>).
\<close>

fun wrapLoop ::
  "(jsstring \<Rightarrow> real) \<Rightarrow> real \<Rightarrow> int \<Rightarrow> jsstring list \<Rightarrow> jsstring list \<Rightarrow>
    jsstring list \<Rightarrow> jsstring \<Rightarrow> (jsstring list \<times> jsstring) option" where
  "wrapLoop measureText maxWidth maxLines words [] lines currentLine =
     Some (lines, currentLine)"
| "wrapLoop measureText maxWidth maxLines words (word # rest) lines currentLine =
     (if measureText (currentLine @ word) > maxWidth \<and> currentLine \<noteq> [] then
        (if int (length (lines @ [currentLine])) \<ge> maxLines then
           (if int (length words) > indexOf words word + 1 then
              (case trimLoop measureText maxWidth word of
                 None \<Rightarrow> None
               | Some trimmed \<Rightarrow> Some (lines @ [currentLine], trimmed @ ellipsis))
            else Some (lines @ [currentLine], word))
         else wrapLoop measureText maxWidth maxLines words rest (lines @ [currentLine]) word)
      else wrapLoop measureText maxWidth maxLines words rest lines (currentLine @ word))"

text \<open>
  \<open>maxLines = Math.floor((props.rowHeight - padding * 2) / lineHeight)\<close> with
  \<open>padding = 10\<close> and \<open>lineHeight = 20\<close>.
\<close>

definition maxLinesOf :: "real \<Rightarrow> int" where
  "maxLinesOf rowHeightPx = \<lfloor>(rowHeightPx - 10 * 2) / 20\<rfloor>"

text \<open>
  The array \<open>lines\<close> that the multi-line branch draws for a cell of the given column
  width: the loop above, followed by
  \<^verbatim>\<open>if (currentLine && lines.length < maxLines) lines.push(currentLine)\<close>.
\<close>

definition wrapLines ::
  "(jsstring \<Rightarrow> real) \<Rightarrow> real \<Rightarrow> real \<Rightarrow> jsstring \<Rightarrow> jsstring list option" where
  "wrapLines measureText columnWidth rowHeightPx text =
     (let maxWidth = columnWidth - 10 * 2;
          maxLines = maxLinesOf rowHeightPx;
          words = splitWords text
      in case wrapLoop measureText maxWidth maxLines words words [] [] of
           None \<Rightarrow> None
         | Some (lines, currentLine) \<Rightarrow>
             Some (if currentLine \<noteq> [] \<and> int (length lines) < maxLines
                   then lines @ [currentLine] else lines))"

text \<open>
  A measurement context for worked examples: a fixed-pitch font in which every code
  unit is 7 pixels wide.
\<close>

definition fixedPitch :: "jsstring \<Rightarrow> real" where
  "fixedPitch s = 7 * real (length s)"

section \<open>The table and its column widths\<close>

text \<open>
  The component's props and the two measurements it reads from the DOM
  (\<open>tableContainer.value.clientHeight\<close> and the observed \<open>containerWidth\<close>). A cell
  value is kept as the text \<open>String\<close> gives it, with \<open>undefined\<close> and \<open>null\<close> apart,
  since the source treats them apart; a row maps a property name to its value.
\<close>

datatype error = TypeError | NaNScroll

datatype jsnumber = Finite real | PosInfinity | NegInfinity | NaN

datatype jsvalue = Undefined | Null | Text jsstring

record column =
  key :: jsstring
  title :: jsstring
  width :: "real option"

type_synonym row = "jsstring \<Rightarrow> jsvalue"

record table =
  data :: "row list"
  columns :: "column list"
  headerHeight :: real
  rowHeight :: real
  showEllipsis :: bool
  clientHeight :: real
  containerWidth :: real

text \<open>\<open>String(v)\<close>, and \<open>String(v ?? '')\<close>.\<close>

fun toStr :: "jsvalue \<Rightarrow> jsstring" where
  "toStr Undefined = [117, 110, 100, 101, 102, 105, 110, 101, 100]"
| "toStr Null = [110, 117, 108, 108]"
| "toStr (Text s) = s"

fun toStrOrEmpty :: "jsvalue \<Rightarrow> jsstring" where
  "toStrOrEmpty Undefined = []"
| "toStrOrEmpty Null = []"
| "toStrOrEmpty (Text s) = s"

definition contentHeight :: "table \<Rightarrow> real" where
  "contentHeight t = real (length (data t)) * rowHeight t"

text \<open>
  \<open>tableContainer.value.clientHeight - props.headerHeight\<close>; in the computed
  properties the source appends \<open>|| 0\<close>, which changes nothing for a mounted container.
\<close>

definition containerHeight :: "table \<Rightarrow> real" where
  "containerHeight t = clientHeight t - headerHeight t"

definition showScrollbar :: "table \<Rightarrow> bool" where
  "showScrollbar t = (contentHeight t > containerHeight t)"

text \<open>
  The indices that the loop of \<open>measureCellWidth\<close> visits, from
  \<open>Math.floor(scrollTop / rowHeight)\<close> up to, and not including,
  \<open>Math.min(data.length, Math.ceil((scrollTop + clientHeight) / rowHeight))\<close>. A negative
  start index makes \<open>props.data[i]\<close> undefined and the property read throws. With
  \<open>rowHeight = 0\<close> the start index is infinite or NaN: the loop body runs (and throws)
  only from \<open>-Infinity\<close> towards a finite end.
\<close>

definition visibleStartIndex :: "table \<Rightarrow> real \<Rightarrow> int" where
  "visibleStartIndex t sTop = \<lfloor>sTop / rowHeight t\<rfloor>"

definition visibleEndIndex :: "table \<Rightarrow> real \<Rightarrow> int" where
  "visibleEndIndex t sTop =
     min (int (length (data t))) \<lceil>(sTop + clientHeight t) / rowHeight t\<rceil>"

definition visibleRows :: "table \<Rightarrow> real \<Rightarrow> error + nat list" where
  "visibleRows t sTop =
     (if rowHeight t = 0 then
        (if sTop < 0 \<and> sTop + clientHeight t > 0 then Inl TypeError else Inr [])
      else if visibleStartIndex t sTop < visibleEndIndex t sTop \<and> visibleStartIndex t sTop < 0
        then Inl TypeError
      else Inr (map nat [visibleStartIndex t sTop .. visibleEndIndex t sTop - 1]))"

text \<open>
  \<open>measureCellWidth(column, context)\<close>: the header width plus 40, the largest content
  width plus 40 over the visited rows (starting from 0), and 150.
\<close>

definition measureCellWidth ::
  "(jsstring \<Rightarrow> real) option \<Rightarrow> table \<Rightarrow> real \<Rightarrow> column \<Rightarrow> error + real" where
  "measureCellWidth context t sTop col =
     (case context of
        None \<Rightarrow> Inr 150
      | Some measureText \<Rightarrow>
          (case visibleRows t sTop of
             Inl e \<Rightarrow> Inl e
           | Inr rows \<Rightarrow>
               (let headerWidth = measureText (title col) + 40;
                    maxContentWidth =
                      fold (\<lambda>i acc. max acc (measureText (toStr ((data t ! i) (key col))) + 40))
                        rows 0
                in Inr (max (max headerWidth maxContentWidth) 150))))"

text \<open>The test \<open>if (column.width)\<close>: the width is present and not zero.\<close>

definition hasWidth :: "column \<Rightarrow> bool" where
  "hasWidth col = (case width col of None \<Rightarrow> False | Some w \<Rightarrow> w \<noteq> 0)"

text \<open>
  The first \<open>forEach\<close> of \<open>columnWidths\<close> fills \<open>widths\<close> with the declared width or the
  measured minimum, adds them up in \<open>totalFixedWidth\<close> and collects the indices of the
  other columns in \<open>flexColumns\<close>. The object \<open>widths\<close> has the keys \<open>0 .. n - 1\<close> and is
  kept as a list.
\<close>

fun firstPass ::
  "(jsstring \<Rightarrow> real) \<Rightarrow> table \<Rightarrow> real \<Rightarrow> column list \<Rightarrow> error + real list" where
  "firstPass measureText t sTop [] = Inr []"
| "firstPass measureText t sTop (col # cols) =
     (case (if hasWidth col then Inr (the (width col))
            else measureCellWidth (Some measureText) t sTop col) of
        Inl e \<Rightarrow> Inl e
      | Inr w \<Rightarrow>
          (case firstPass measureText t sTop cols of
             Inl e \<Rightarrow> Inl e
           | Inr ws \<Rightarrow> Inr (w # ws)))"

definition flexColumns :: "table \<Rightarrow> nat list" where
  "flexColumns t = filter (\<lambda>i. \<not> hasWidth (columns t ! i)) [0..<length (columns t)]"

text \<open>
  The computed property \<open>columnWidths\<close>. Without a drawing context it is the empty
  object. \<open>availableWidth\<close> is the container width less 12 pixels when the vertical
  scrollbar shows. The second step gives every flexible column
  \<open>Math.floor(extraSpace / flexColumns.length)\<close> more when the total is below the
  available width.
\<close>

definition availableWidth :: "table \<Rightarrow> real" where
  "availableWidth t = containerWidth t - (if showScrollbar t then 12 else 0)"

definition columnWidths ::
  "(jsstring \<Rightarrow> real) option \<Rightarrow> table \<Rightarrow> real \<Rightarrow> error + real list" where
  "columnWidths context t sTop =
     (case context of
        None \<Rightarrow> Inr []
      | Some measureText \<Rightarrow>
          (case firstPass measureText t sTop (columns t) of
             Inl e \<Rightarrow> Inl e
           | Inr widths \<Rightarrow>
               (let totalFixedWidth = sum_list widths
                in if flexColumns t \<noteq> [] \<and> totalFixedWidth < availableWidth t then
                     (let extraSpace = availableWidth t - totalFixedWidth;
                          extraPerColumn =
                            real_of_int \<lfloor>extraSpace / real (length (flexColumns t))\<rfloor>
                      in Inr (fold (\<lambda>i ws. ws[i := ws ! i + extraPerColumn])
                                (flexColumns t) widths))
                   else Inr widths)))"

text \<open>
  \<open>totalWidth\<close> adds \<open>columnWidths.value[index]\<close> over the columns. The component is
  mounted from here on: the drawing context exists and \<open>widths\<close> has one entry for each
  column.
\<close>

definition totalWidth :: "(jsstring \<Rightarrow> real) \<Rightarrow> table \<Rightarrow> real \<Rightarrow> error + real" where
  "totalWidth measureText t sTop =
     (case columnWidths (Some measureText) t sTop of
        Inl e \<Rightarrow> Inl e
      | Inr widths \<Rightarrow> Inr (sum_list widths))"

definition showHorizontalScrollbar ::
  "(jsstring \<Rightarrow> real) \<Rightarrow> table \<Rightarrow> real \<Rightarrow> error + bool" where
  "showHorizontalScrollbar measureText t sTop =
     (case totalWidth measureText t sTop of
        Inl e \<Rightarrow> Inl e
      | Inr tw \<Rightarrow> Inr (tw > containerWidth t))"

section \<open>Scrollbar geometry\<close>

text \<open>
  \<open>thumbHeight\<close> divides by \<open>contentHeight\<close>. For an empty data set the quotient is an
  infinity, whose product with the container height is \<open>+Infinity\<close>, or it is NaN when
  the container height is zero too (row heights are taken to be non-negative, so that
  no negative zero arises).
\<close>

definition thumbHeight :: "table \<Rightarrow> jsnumber" where
  "thumbHeight t =
     (if contentHeight t \<noteq> 0
      then Finite (max 40 (containerHeight t / contentHeight t * containerHeight t))
      else if containerHeight t = 0 then NaN else PosInfinity)"

definition horizontalThumbWidth ::
  "(jsstring \<Rightarrow> real) \<Rightarrow> table \<Rightarrow> real \<Rightarrow> error + real" where
  "horizontalThumbWidth measureText t sTop =
     (if containerWidth t = 0 then Inr 40
      else case totalWidth measureText t sTop of
             Inl e \<Rightarrow> Inl e
           | Inr tw \<Rightarrow>
               (if tw = 0 then Inr 40
                else Inr (max 40 (containerWidth t / tw
                                   * (containerWidth t - (if showScrollbar t then 12 else 0))))))"

section \<open>Hit testing\<close>

text \<open>
  The object that \<open>getCellFromPoint\<close> returns. \<open>rowIndex\<close> is the floor of a quotient by
  \<open>rowHeight\<close> and is not finite when the row height is zero.
\<close>

record cell =
  rowIndex :: jsnumber
  columnIndex :: nat
  cellValue :: jsvalue
  cellRow :: "row option"
  cellColumn :: column

definition rowIndexAt :: "table \<Rightarrow> real \<Rightarrow> real \<Rightarrow> jsnumber" where
  "rowIndexAt t sTop y =
     (let n = y - headerHeight t + sTop in
      if rowHeight t \<noteq> 0 then Finite (real_of_int \<lfloor>n / rowHeight t\<rfloor>)
      else if n > 0 then PosInfinity else if n < 0 then NegInfinity else NaN)"

text \<open>\<open>props.data[rowIndex]\<close>, undefined outside the array.\<close>

definition rowAt :: "row list \<Rightarrow> jsnumber \<Rightarrow> row option" where
  "rowAt rows idx =
     (case idx of
        Finite r \<Rightarrow>
          (if 0 \<le> r \<and> r < real (length rows) \<and> r = real_of_int \<lfloor>r\<rfloor>
           then Some (rows ! nat \<lfloor>r\<rfloor>) else None)
      | PosInfinity \<Rightarrow> None
      | NegInfinity \<Rightarrow> None
      | NaN \<Rightarrow> None)"

text \<open>The comparison \<open>rowIndex < props.data.length\<close>.\<close>

definition lessThanLength :: "jsnumber \<Rightarrow> nat \<Rightarrow> bool" where
  "lessThanLength idx n =
     (case idx of
        Finite r \<Rightarrow> r < real n
      | PosInfinity \<Rightarrow> False
      | NegInfinity \<Rightarrow> True
      | NaN \<Rightarrow> False)"

text \<open>
  The column loop of \<open>getCellFromPoint\<close>, over the widths still to visit, with the
  variables \<open>currentX\<close> and \<open>i\<close>. \<open>columnIndex\<close> starts at 0 and is assigned only when a
  column matches, so a loop that finds no column leaves 0.
\<close>

fun findColumn :: "real list \<Rightarrow> real \<Rightarrow> real \<Rightarrow> nat \<Rightarrow> nat" where
  "findColumn [] x currentX i = 0"
| "findColumn (w # ws) x currentX i =
     (if x \<ge> currentX \<and> x < currentX + w then i
      else findColumn ws x (currentX + w) (Suc i))"

text \<open>
  The body of \<open>getCellFromPoint\<close> for given resolved widths. Reading
  \<open>props.columns[columnIndex].key\<close> throws when there is no column.
\<close>

definition cellAt :: "table \<Rightarrow> real list \<Rightarrow> real \<Rightarrow> real \<Rightarrow> real \<Rightarrow> error + cell option" where
  "cellAt t widths sTop x y =
     (if y < headerHeight t then Inr None
      else
        (let rowIdx = rowIndexAt t sTop y;
             columnIdx = findColumn widths x 0 0
         in if columns t = [] then Inl TypeError
            else Inr (Some \<lparr>rowIndex = rowIdx, columnIndex = columnIdx,
                   cellValue =
                     (case rowAt (data t) rowIdx of
                        None \<Rightarrow> Undefined
                      | Some r \<Rightarrow> r (key (columns t ! columnIdx))),
                   cellRow = rowAt (data t) rowIdx,
                   cellColumn = columns t ! columnIdx\<rparr>)))"

definition getCellFromPoint ::
  "(jsstring \<Rightarrow> real) \<Rightarrow> table \<Rightarrow> real \<Rightarrow> real \<Rightarrow> real \<Rightarrow> error + cell option" where
  "getCellFromPoint measureText t sTop x y =
     (if y < headerHeight t then Inr None
      else case columnWidths (Some measureText) t sTop of
             Inl e \<Rightarrow> Inl e
           | Inr widths \<Rightarrow> cellAt t widths sTop x y)"

text \<open>
  The loop of \<open>isNearColumnBorder\<close>: the first column whose right edge is less than
  5 pixels from \<open>x\<close>.
\<close>

fun nearBorder :: "real list \<Rightarrow> real \<Rightarrow> real \<Rightarrow> nat \<Rightarrow> nat option" where
  "nearBorder [] x currentX i = None"
| "nearBorder (w # ws) x currentX i =
     (if \<bar>x - (currentX + w)\<bar> < 5 then Some i
      else nearBorder ws x (currentX + w) (Suc i))"

section \<open>Interaction state and handlers\<close>

text \<open>
  The refs of the component that the handlers read and write. \<open>stateColumnWidths\<close> is
  the object \<open>state.value.columnWidths\<close>, which starts empty.
\<close>

record state =
  scrollTop :: real
  scrollLeft :: real
  selectedRow :: "jsnumber option"
  hoveredRow :: "jsnumber option"
  resizingColumn :: "nat option"
  isResizing :: bool
  startX :: real
  stateColumnWidths :: "nat \<Rightarrow> real option"
  isDraggingScroll :: bool
  startDragY :: real
  startScrollTop :: real
  isDraggingHorizontalScroll :: bool
  startDragX :: real
  startScrollLeft :: real
  tooltipShow :: bool
  tooltipText :: jsstring
  tooltipX :: real
  tooltipY :: real

definition initialState :: state where
  "initialState =
     \<lparr>scrollTop = 0, scrollLeft = 0, selectedRow = None, hoveredRow = None,
      resizingColumn = None, isResizing = False, startX = 0,
      stateColumnWidths = (\<lambda>i. None),
      isDraggingScroll = False, startDragY = 0, startScrollTop = 0,
      isDraggingHorizontalScroll = False, startDragX = 0, startScrollLeft = 0,
      tooltipShow = False, tooltipText = [], tooltipX = 0, tooltipY = 0\<rparr>"

record mouseEvent =
  offsetX :: real
  offsetY :: real
  clientX :: real
  clientY :: real

record wheelEvent =
  shiftKey :: bool
  deltaX :: real
  deltaY :: real

record notification =
  notifiedCell :: cell
  notifiedEvent :: mouseEvent

text \<open>\<open>state.value.columnWidths[i] || 150\<close>: a missing or zero entry gives 150.\<close>

definition orDefault150 :: "real option \<Rightarrow> real" where
  "orDefault150 v = (case v of None \<Rightarrow> 150 | Some w \<Rightarrow> if w = 0 then 150 else w)"

text \<open>
  \<open>isNearColumnBorder\<close> returns its answer and, as a side effect, sets
  \<open>resizingColumn\<close>.
\<close>

definition isNearColumnBorder ::
  "(jsstring \<Rightarrow> real) \<Rightarrow> table \<Rightarrow> state \<Rightarrow> real \<Rightarrow> real \<Rightarrow> error + (bool \<times> state)" where
  "isNearColumnBorder measureText t st x y =
     (if y > headerHeight t then Inr (False, st)
      else case columnWidths (Some measureText) t (scrollTop st) of
             Inl e \<Rightarrow> Inl e
           | Inr widths \<Rightarrow>
               (case nearBorder widths x 0 0 of
                  None \<Rightarrow> Inr (False, st)
                | Some i \<Rightarrow> Inr (True, st\<lparr>resizingColumn := Some i\<rparr>)))"

definition handleMouseDown ::
  "(jsstring \<Rightarrow> real) \<Rightarrow> table \<Rightarrow> state \<Rightarrow> mouseEvent \<Rightarrow> error + state" where
  "handleMouseDown measureText t st e =
     (case isNearColumnBorder measureText t st (offsetX e) (offsetY e) of
        Inl err \<Rightarrow> Inl err
      | Inr (near, st1) \<Rightarrow>
          (if near then Inr (st1\<lparr>isResizing := True, startX := offsetX e\<rparr>)
           else if offsetY e > headerHeight t then
             (let rowIdx = rowIndexAt t (scrollTop st1) (offsetY e)
              in if lessThanLength rowIdx (length (data t))
                 then Inr (st1\<lparr>selectedRow := Some rowIdx\<rparr>)
                 else Inr (st1\<lparr>selectedRow := None\<rparr>))
           else Inr st1))"

text \<open>
  \<open>handleMouseMove\<close>: while a column is being resized the handler adds the horizontal
  displacement to \<open>state.value.columnWidths[resizingColumn]\<close> and returns; otherwise it
  updates the hovered row and the tooltip.
\<close>

definition handleMouseMove ::
  "(jsstring \<Rightarrow> real) \<Rightarrow> table \<Rightarrow> state \<Rightarrow> mouseEvent \<Rightarrow> error + state" where
  "handleMouseMove measureText t st e =
     (if isResizing st \<and> resizingColumn st \<noteq> None then
        (let c = the (resizingColumn st);
             diff = offsetX e - startX st
         in Inr (st\<lparr>stateColumnWidths :=
                       (stateColumnWidths st)(c := Some (orDefault150 (stateColumnWidths st c) + diff)),
                    startX := offsetX e\<rparr>))
      else
        (case getCellFromPoint measureText t (scrollTop st) (offsetX e) (offsetY e) of
           Inl err \<Rightarrow> Inl err
         | Inr None \<Rightarrow> Inr (st\<lparr>hoveredRow := None, tooltipShow := False\<rparr>)
         | Inr (Some c) \<Rightarrow>
             (let st1 = (if lessThanLength (rowIndex c) (length (data t))
                         then st\<lparr>hoveredRow := Some (rowIndex c)\<rparr>
                         else st\<lparr>hoveredRow := None\<rparr>)
              in if showEllipsis t then
                   (case columnWidths (Some measureText) t (scrollTop st) of
                      Inl err \<Rightarrow> Inl err
                    | Inr widths \<Rightarrow>
                        (if measureText (toStrOrEmpty (cellValue c)) > widths ! columnIndex c - 20
                         then Inr (st1\<lparr>tooltipShow := True,
                                        tooltipText := toStrOrEmpty (cellValue c),
                                        tooltipX := clientX e, tooltipY := clientY e\<rparr>)
                         else Inr (st1\<lparr>tooltipShow := False\<rparr>)))
                 else Inr (st1\<lparr>tooltipShow := False\<rparr>))))"

definition handleMouseUp :: "state \<Rightarrow> state" where
  "handleMouseUp st = st\<lparr>isResizing := False, resizingColumn := None\<rparr>"

definition handleMouseOut :: "state \<Rightarrow> state" where
  "handleMouseOut st = st\<lparr>tooltipShow := False, hoveredRow := None\<rparr>"

text \<open>
  \<open>handleContextMenu\<close>: the list of \<open>context-menu\<close> notifications that the handler
  emits (none or one).
\<close>

definition handleContextMenu ::
  "(jsstring \<Rightarrow> real) \<Rightarrow> table \<Rightarrow> state \<Rightarrow> mouseEvent \<Rightarrow> error + notification list" where
  "handleContextMenu measureText t st e =
     (case getCellFromPoint measureText t (scrollTop st) (offsetX e) (offsetY e) of
        Inl err \<Rightarrow> Inl err
      | Inr None \<Rightarrow> Inr []
      | Inr (Some c) \<Rightarrow> Inr [\<lparr>notifiedCell = c, notifiedEvent = e\<rparr>])"

text \<open>
  The widths that the first version of the component (\<open>CanvasTable.vue\<close>) renders and
  hit-tests with: \<open>state.value.columnWidths[i] || 150\<close> for each column.
\<close>

definition renderedWidthsV1 :: "table \<Rightarrow> state \<Rightarrow> real list" where
  "renderedWidthsV1 t st =
     map (\<lambda>i. orDefault150 (stateColumnWidths st i)) [0..<length (columns t)]"

text \<open>\<open>getCellFromPoint\<close> of the first version, over these widths.\<close>

definition getCellFromPointV1 :: "table \<Rightarrow> state \<Rightarrow> real \<Rightarrow> real \<Rightarrow> error + cell option" where
  "getCellFromPointV1 t st x y = cellAt t (renderedWidthsV1 t st) (scrollTop st) x y"

section \<open>Scrolling\<close>

text \<open>
  \<open>handleWheel\<close>. The horizontal branch is taken with the shift key, or with a
  horizontal delta when the columns overflow the container; it scrolls by
  \<open>e.deltaX || e.deltaY\<close>. \<open>totalWidth\<close> is read only where the source evaluates it.
\<close>

definition handleWheel ::
  "(jsstring \<Rightarrow> real) \<Rightarrow> table \<Rightarrow> state \<Rightarrow> wheelEvent \<Rightarrow> error + state" where
  "handleWheel measureText t st e =
     (if \<not> shiftKey e \<and> deltaX e = 0 then
        Inr (st\<lparr>scrollTop :=
               max 0 (min (scrollTop st + deltaY e) (contentHeight t - containerHeight t))\<rparr>)
      else
        (case totalWidth measureText t (scrollTop st) of
           Inl err \<Rightarrow> Inl err
         | Inr tw \<Rightarrow>
             (if shiftKey e \<or> (deltaX e \<noteq> 0 \<and> tw > containerWidth t) then
                (let maxScroll = tw - containerWidth t;
                     newScrollLeft =
                       scrollLeft st + (if deltaX e \<noteq> 0 then deltaX e else deltaY e)
                 in Inr (st\<lparr>scrollLeft := max 0 (min newScrollLeft maxScroll)\<rparr>))
              else
                Inr (st\<lparr>scrollTop :=
                       max 0 (min (scrollTop st + deltaY e)
                                (contentHeight t - containerHeight t))\<rparr>))))"

definition handleScrollStart :: "state \<Rightarrow> real \<Rightarrow> state" where
  "handleScrollStart st y =
     st\<lparr>isDraggingScroll := True, startDragY := y, startScrollTop := scrollTop st\<rparr>"

text \<open>
  \<open>handleScrollMove\<close>, for the pointer's \<open>clientY\<close>. With a thumb height of
  \<open>+Infinity\<close> the track length is \<open>-Infinity\<close> and the handler returns; with
  \<open>-Infinity\<close> the ratio is zero; with NaN the comparison \<open>scrollableHeight <= 0\<close> is
  false and NaN is stored in \<open>scrollTop\<close>.
\<close>

definition handleScrollMove :: "table \<Rightarrow> state \<Rightarrow> real \<Rightarrow> error + state" where
  "handleScrollMove t st y =
     (if \<not> isDraggingScroll st then Inr st
      else case thumbHeight t of
             PosInfinity \<Rightarrow> Inr st
           | NegInfinity \<Rightarrow>
               Inr (st\<lparr>scrollTop :=
                      max 0 (min (startScrollTop st) (contentHeight t - containerHeight t))\<rparr>)
           | NaN \<Rightarrow> Inl NaNScroll
           | Finite th \<Rightarrow>
               (let deltaY = y - startDragY st;
                    scrollableHeight = containerHeight t - th
                in if scrollableHeight \<le> 0 then Inr st
                   else
                     (let scrollRatio = (contentHeight t - containerHeight t) / scrollableHeight;
                          newScrollTop = startScrollTop st + deltaY * scrollRatio
                      in Inr (st\<lparr>scrollTop :=
                                max 0 (min newScrollTop
                                         (contentHeight t - containerHeight t))\<rparr>))))"

definition handleScrollEnd :: "state \<Rightarrow> state" where
  "handleScrollEnd st = st\<lparr>isDraggingScroll := False\<rparr>"

definition handleHorizontalScrollStart :: "state \<Rightarrow> real \<Rightarrow> state" where
  "handleHorizontalScrollStart st x =
     st\<lparr>isDraggingHorizontalScroll := True, startDragX := x, startScrollLeft := scrollLeft st\<rparr>"

text \<open>
  \<open>handleHorizontalScrollMove\<close>, for the pointer's \<open>clientX\<close>. \<open>maxScroll\<close> is positive
  where the ratio \<open>maxScroll / scrollableWidth\<close> is formed; on a track of length zero the
  ratio is \<open>+Infinity\<close>, and its product with the displacement is an infinity (clamped
  to an end of the range) or, for no displacement, NaN.
\<close>

definition handleHorizontalScrollMove ::
  "(jsstring \<Rightarrow> real) \<Rightarrow> table \<Rightarrow> state \<Rightarrow> real \<Rightarrow> error + state" where
  "handleHorizontalScrollMove measureText t st x =
     (if \<not> isDraggingHorizontalScroll st then Inr st
      else
        (case horizontalThumbWidth measureText t (scrollTop st) of
           Inl err \<Rightarrow> Inl err
         | Inr thumb \<Rightarrow>
             (case totalWidth measureText t (scrollTop st) of
                Inl err \<Rightarrow> Inl err
              | Inr tw \<Rightarrow>
                  (let deltaX = x - startDragX st;
                       scrollableWidth =
                         containerWidth t - (if showScrollbar t then 12 else 0) - thumb;
                       maxScroll = tw - containerWidth t
                   in if maxScroll \<le> 0 then Inr st
                      else if scrollableWidth = 0 then
                        (if deltaX > 0 then Inr (st\<lparr>scrollLeft := maxScroll\<rparr>)
                         else if deltaX < 0 then Inr (st\<lparr>scrollLeft := 0\<rparr>)
                         else Inl NaNScroll)
                      else
                        (let scrollRatio = maxScroll / scrollableWidth;
                             newScrollLeft = startScrollLeft st + deltaX * scrollRatio
                         in Inr (st\<lparr>scrollLeft := max 0 (min newScrollLeft maxScroll)\<rparr>))))))"

definition handleHorizontalScrollEnd :: "state \<Rightarrow> state" where
  "handleHorizontalScrollEnd st = st\<lparr>isDraggingHorizontalScroll := False\<rparr>"

text \<open>
  The wheel and scrollbar events. A thumb receives \<open>mousedown\<close> only while the
  template renders it (\<open>v-if="showScrollbar"\<close>, \<open>v-if="showHorizontalScrollbar"\<close>); the
  move and up handlers listen on the window.
\<close>

datatype scrollEvent =
    Wheel wheelEvent
  | ScrollStart real
  | ScrollMove real
  | ScrollEnd
  | HorizontalScrollStart real
  | HorizontalScrollMove real
  | HorizontalScrollEnd

fun dispatch :: "(jsstring \<Rightarrow> real) \<Rightarrow> table \<Rightarrow> state \<Rightarrow> scrollEvent \<Rightarrow> error + state" where
  "dispatch measureText t st (Wheel e) = handleWheel measureText t st e"
| "dispatch measureText t st (ScrollStart y) =
     (if showScrollbar t then Inr (handleScrollStart st y) else Inr st)"
| "dispatch measureText t st (ScrollMove y) = handleScrollMove t st y"
| "dispatch measureText t st ScrollEnd = Inr (handleScrollEnd st)"
| "dispatch measureText t st (HorizontalScrollStart x) =
     (case showHorizontalScrollbar measureText t (scrollTop st) of
        Inl err \<Rightarrow> Inl err
      | Inr shown \<Rightarrow> if shown then Inr (handleHorizontalScrollStart st x) else Inr st)"
| "dispatch measureText t st (HorizontalScrollMove x) =
     handleHorizontalScrollMove measureText t st x"
| "dispatch measureText t st HorizontalScrollEnd = Inr (handleHorizontalScrollEnd st)"

fun run :: "(jsstring \<Rightarrow> real) \<Rightarrow> table \<Rightarrow> state \<Rightarrow> scrollEvent list \<Rightarrow> error + state" where
  "run measureText t st [] = Inr st"
| "run measureText t st (ev # evs) =
     (case dispatch measureText t st ev of
        Inl err \<Rightarrow> Inl err
      | Inr st1 \<Rightarrow> run measureText t st1 evs)"

text \<open>
  A table for worked examples, in the fixed-pitch context: one flexible column \<open>a\<close>
  over three rows of height 30 under a header of height 40, in a container 200 pixels
  wide and 70 pixels high. The first row holds a text of 40 code units (280 pixels),
  the other rows one code unit.
\<close>

definition exampleTable :: table where
  "exampleTable =
     \<lparr>data = [(\<lambda>k. Text (replicate 40 120)), (\<lambda>k. Text [121]), (\<lambda>k. Text [122])],
      columns = [\<lparr>key = [97], title = [97], width = None\<rparr>],
      headerHeight = 40, rowHeight = 30, showEllipsis = False,
      clientHeight = 70, containerWidth = 200\<rparr>"

text \<open>The example table with a second flexible column \<open>b\<close>.\<close>

definition twoColumnTable :: table where
  "twoColumnTable =
     exampleTable\<lparr>columns := [\<lparr>key = [97], title = [97], width = None\<rparr>,
                               \<lparr>key = [98], title = [98], width = None\<rparr>]\<rparr>"

text \<open>
  Two more example tables: one with a fixed column of 100 pixels before two flexible
  columns, in a container 901 pixels wide, and the one-column table in a container
  100 pixels high, where the vertical thumb has a track to move on.
\<close>

definition mixedTable :: table where
  "mixedTable =
     exampleTable\<lparr>columns := [\<lparr>key = [97], title = [97], width = Some 100\<rparr>,
                               \<lparr>key = [98], title = [98], width = None\<rparr>,
                               \<lparr>key = [99], title = [99], width = None\<rparr>],
                   containerWidth := 901\<rparr>"

definition tallTable :: table where
  "tallTable = exampleTable\<lparr>clientHeight := 100\<rparr>"

section \<open>Properties of the text layout\<close>

declare ellipsisSearch.simps [simp del]

lemma ellipsisSearch_sound:
  assumes "left \<le> right" "right \<le> length str"
    and "\<forall>i j. i \<le> j \<and> j \<le> length str \<longrightarrow>
           m (take i str @ ellipsis) \<le> m (take j str @ ellipsis)"
    and "m (take left str @ ellipsis) \<le> w"
    and "\<forall>j. right < j \<and> j \<le> length str \<longrightarrow> \<not> m (take j str @ ellipsis) \<le> w"
  shows "left \<le> ellipsisSearch m str w left right
     \<and> ellipsisSearch m str w left right \<le> right
     \<and> m (take (ellipsisSearch m str w left right) str @ ellipsis) \<le> w
     \<and> (\<forall>j. ellipsisSearch m str w left right < j \<and> j \<le> length str \<longrightarrow>
            \<not> m (take j str @ ellipsis) \<le> w)"
  using assms
proof (induction m str w left right rule: ellipsisSearch.induct)
  case (1 m str w left right)
  show ?case
  proof (cases "left < right")
    case False
    then have "ellipsisSearch m str w left right = left"
      by (subst ellipsisSearch.simps) simp
    moreover have "left = right"
      using False "1.prems"(1) by simp
    ultimately show ?thesis
      using "1.prems" by simp
  next
    case True
    define mid where "mid = (left + right + 1) div 2"
    have midb: "left < mid" "mid \<le> right"
      using True by (auto simp: mid_def)
    show ?thesis
    proof (cases "m (take mid str @ ellipsis) \<le> w")
      case fits: True
      have eq: "ellipsisSearch m str w left right = ellipsisSearch m str w mid right"
        using True fits
        by (simp add: ellipsisSearch.simps[of m str w left right] mid_def Let_def)
      have "mid \<le> ellipsisSearch m str w mid right
          \<and> ellipsisSearch m str w mid right \<le> right
          \<and> m (take (ellipsisSearch m str w mid right) str @ ellipsis) \<le> w
          \<and> (\<forall>j. ellipsisSearch m str w mid right < j \<and> j \<le> length str \<longrightarrow>
                 \<not> m (take j str @ ellipsis) \<le> w)"
        using "1.IH"(1)[OF True mid_def fits] midb "1.prems" fits by simp
      then show ?thesis
        using eq midb by simp
    next
      case nofit: False
      have eq: "ellipsisSearch m str w left right = ellipsisSearch m str w left (mid - 1)"
        using True nofit
        by (simp add: ellipsisSearch.simps[of m str w left right] mid_def Let_def)
      have above: "\<forall>j. mid - 1 < j \<and> j \<le> length str \<longrightarrow> \<not> m (take j str @ ellipsis) \<le> w"
      proof (intro allI impI)
        fix j
        assume j: "mid - 1 < j \<and> j \<le> length str"
        then have "mid \<le> j"
          by arith
        then have "m (take mid str @ ellipsis) \<le> m (take j str @ ellipsis)"
          using "1.prems"(3) j by blast
        then show "\<not> m (take j str @ ellipsis) \<le> w"
          using nofit by simp
      qed
      have "left \<le> ellipsisSearch m str w left (mid - 1)
          \<and> ellipsisSearch m str w left (mid - 1) \<le> mid - 1
          \<and> m (take (ellipsisSearch m str w left (mid - 1)) str @ ellipsis) \<le> w
          \<and> (\<forall>j. ellipsisSearch m str w left (mid - 1) < j \<and> j \<le> length str \<longrightarrow>
                 \<not> m (take j str @ ellipsis) \<le> w)"
        using "1.IH"(2)[OF True mid_def nofit] midb "1.prems" above by simp
      then show ?thesis
        using eq midb by auto
    qed
  qed
qed


text \<open>
  \<^bold>\<open>Claim C3.\<close> Let the widths of the ellipsised prefixes of the text be monotonic (a
  longer prefix followed by \<open>...\<close> is at least as wide as a shorter one) and let
  \<open>maxWidth\<close> be at least the width of \<open>...\<close>. Then \<open>getEllipsisText\<close> returns the
  text unchanged when the text fits; otherwise it returns a prefix followed by \<open>...\<close>
  that fits, and no longer prefix followed by \<open>...\<close> fits. In both cases the result
  fits, so truncating the result again returns it unchanged.
\<close>

theorem getEllipsisText_fits_longest_idempotent:
  assumes mono: "\<forall>i j. i \<le> j \<and> j \<le> length str \<longrightarrow>
           m (take i str @ ellipsis) \<le> m (take j str @ ellipsis)"
    and ell: "m ellipsis \<le> w"
  shows "(m str \<le> w \<longrightarrow> getEllipsisText m str w = str)
     \<and> (\<not> m str \<le> w \<longrightarrow>
          (\<exists>k\<le>length str. getEllipsisText m str w = take k str @ ellipsis
              \<and> m (take k str @ ellipsis) \<le> w
              \<and> (\<forall>j. k < j \<and> j \<le> length str \<longrightarrow> \<not> m (take j str @ ellipsis) \<le> w)))
     \<and> m (getEllipsisText m str w) \<le> w
     \<and> getEllipsisText m (getEllipsisText m str w) w = getEllipsisText m str w"
proof -
  let ?k = "ellipsisSearch m str w 0 (length str)"
  have s: "0 \<le> ?k \<and> ?k \<le> length str \<and> m (take ?k str @ ellipsis) \<le> w
     \<and> (\<forall>j. ?k < j \<and> j \<le> length str \<longrightarrow> \<not> m (take j str @ ellipsis) \<le> w)"
    by (rule ellipsisSearch_sound) (use mono ell in auto)
  have fits: "m (getEllipsisText m str w) \<le> w"
    using s by (simp add: getEllipsisText_def)
  have a: "m str \<le> w \<longrightarrow> getEllipsisText m str w = str"
    by (simp add: getEllipsisText_def)
  have b: "\<not> m str \<le> w \<longrightarrow>
          (\<exists>k\<le>length str. getEllipsisText m str w = take k str @ ellipsis
              \<and> m (take k str @ ellipsis) \<le> w
              \<and> (\<forall>j. k < j \<and> j \<le> length str \<longrightarrow> \<not> m (take j str @ ellipsis) \<le> w))"
    using s by (auto simp: getEllipsisText_def intro!: exI[of _ ?k])
  have c: "getEllipsisText m (getEllipsisText m str w) w = getEllipsisText m str w"
    by (subst getEllipsisText_def) (simp add: fits)
  show ?thesis
    using a b fits c by (intro conjI)
qed

theorem getEllipsisText_fits_longest_idempotent_witness:
  "getEllipsisText fixedPitch [97, 98, 99, 100, 101, 102] 35 = [97, 98, 46, 46, 46]
   \<and> fixedPitch (getEllipsisText fixedPitch [97, 98, 99, 100, 101, 102] 35) \<le> 35
   \<and> getEllipsisText fixedPitch (getEllipsisText fixedPitch [97, 98, 99, 100, 101, 102] 35) 35
       = getEllipsisText fixedPitch [97, 98, 99, 100, 101, 102] 35"
proof -
  have mono: "\<forall>i j. i \<le> j \<and> j \<le> length [97, 98, 99, 100, 101, 102::nat] \<longrightarrow>
      fixedPitch (take i [97, 98, 99, 100, 101, 102] @ ellipsis)
        \<le> fixedPitch (take j [97, 98, 99, 100, 101, 102] @ ellipsis)"
    by (simp add: fixedPitch_def)
  have ell: "fixedPitch ellipsis \<le> 35"
    by (simp add: fixedPitch_def ellipsis_def)
  have "getEllipsisText fixedPitch [97, 98, 99, 100, 101, 102] 35 = [97, 98, 46, 46, 46]"
    by (simp add: getEllipsisText_def fixedPitch_def ellipsis_def ellipsisSearch.simps)
  then show ?thesis
    using getEllipsisText_fits_longest_idempotent[OF mono ell] by simp
qed


subsection \<open>The trimming loop\<close>

lemma trimLoop_exit: "\<not> w < m (line @ ellipsis) \<Longrightarrow> trimLoop m w line = Some line"
  by (subst trimLoop.simps) simp

lemma trimLoop_step: "w < m (line @ ellipsis) \<Longrightarrow> trimLoop m w line = trimLoop m w (butlast line)"
  by (subst trimLoop.simps) simp

lemma trimLoop_some_fits:
  assumes a: "trimLoop m w line = Some r"
  shows "\<exists>k\<le>length line. \<not> w < m (take k line @ ellipsis)"
proof (rule trimLoop.raw_induct[where P = "\<lambda>m w line r. \<exists>k\<le>length line. \<not> w < m (take k line @ ellipsis)", OF _ a])
  fix f :: "(jsstring \<Rightarrow> real) \<Rightarrow> real \<Rightarrow> jsstring \<Rightarrow> jsstring option"
    and m w line r
  assume IH: "\<And>m w line r. f m w line = Some r \<Longrightarrow> \<exists>k\<le>length line. \<not> w < m (take k line @ ellipsis)"
    and body: "(if w < m (line @ ellipsis) then f m w (butlast line) else Some line) = Some r"
  show "\<exists>k\<le>length line. \<not> w < m (take k line @ ellipsis)"
  proof (cases "w < m (line @ ellipsis)")
    case True
    with body have "f m w (butlast line) = Some r"
      by simp
    then have "\<exists>k\<le>length (butlast line). \<not> w < m (take k (butlast line) @ ellipsis)"
      by (rule IH)
    then obtain k where k1: "k \<le> length (butlast line)"
      and k2: "\<not> w < m (take k (butlast line) @ ellipsis)"
      by auto
    have "take k (butlast line) = take k line"
      using k1 by (simp add: butlast_conv_take)
    with k2 have "\<not> w < m (take k line @ ellipsis)"
      by simp
    moreover have "k \<le> length line"
      using k1 by simp
    ultimately show ?thesis
      by auto
  next
    case False
    then have "\<not> w < m (take (length line) line @ ellipsis)"
      by simp
    then show ?thesis
      by blast
  qed
qed

lemma trimLoop_diverges:
  assumes "\<And>k. k \<le> length line \<Longrightarrow> w < m (take k line @ ellipsis)"
  shows "trimLoop m w line = None"
proof (cases "trimLoop m w line")
  case None then show ?thesis .
next
  case (Some r)
  from trimLoop_some_fits[OF this] assms show ?thesis by blast
qed

lemma trimLoop_terminates:
  "m ellipsis \<le> w \<Longrightarrow> \<exists>r. trimLoop m w line = Some r"
proof (induction "length line" arbitrary: line)
  case 0
  then show ?case by (simp add: trimLoop_exit)
next
  case (Suc n)
  show ?case
  proof (cases "w < m (line @ ellipsis)")
    case True
    have "n = length (butlast line)" using Suc.hyps(2) by simp
    from Suc.hyps(1)[OF this Suc.prems] show ?thesis using trimLoop_step[of w m line] True by simp
  next
    case False
    then show ?thesis by (simp add: trimLoop_exit)
  qed
qed


text \<open>
  \<^bold>\<open>Claim C10.\<close> The claim is that the trimming loop of the wrap mode exits for every
  line and every \<open>maxWidth\<close>, with the empty line when \<open>maxWidth\<close> is below the width of
  \<open>...\<close>. The loop exits only at a prefix \<open>p\<close> of the line with
  \<open>width (p + '...') \<le> maxWidth\<close>; when \<open>maxWidth\<close> is below the width of \<open>...\<close> and no
  prefix fits, it runs forever on the empty string. In the fixed-pitch context \<open>...\<close>
  is 21 pixels wide, and with \<open>maxWidth = 0\<close> (a 20 pixel column) the loop started on
  a one-letter line does not return.
\<close>

theorem trimLoop_hangs_below_ellipsis_width:
  "trimLoop fixedPitch 0 [97] = None \<and> fixedPitch ellipsis = 21"
proof -
  have "trimLoop fixedPitch 0 [97] = None"
    by (rule trimLoop_diverges) (simp add: fixedPitch_def ellipsis_def)
  then show ?thesis
    by (simp add: fixedPitch_def ellipsis_def)
qed

subsection \<open>Wrapping\<close>

text \<open>
  When \<open>maxLines\<close> is at least 1, the loop leaves as soon as \<open>lines\<close> holds \<open>maxLines\<close>
  lines, so the number of lines stays within the bound.
\<close>

lemma wrapLoop_line_count:
  assumes "wrapLoop m w n words rest lines cur = Some (lines', cur')"
    and "int (length lines) < n"
  shows "int (length lines') \<le> n"
  using assms
proof (induction rest arbitrary: lines cur)
  case Nil
  then show ?case by simp
next
  case (Cons word rest)
  show ?case
  proof (cases "m (cur @ word) > w \<and> cur \<noteq> []")
    case False
    with Cons.prems(1) have "wrapLoop m w n words rest lines (cur @ word) = Some (lines', cur')"
      by auto
    from Cons.IH[OF this Cons.prems(2)] show ?thesis .
  next
    case True
    show ?thesis
    proof (cases "int (length (lines @ [cur])) \<ge> n")
      case full: True
      with True Cons.prems(1) have "lines' = lines @ [cur]"
        by (auto split: if_splits option.splits)
      then show ?thesis
        using Cons.prems(2) by simp
    next
      case room: False
      with True Cons.prems(1)
      have "wrapLoop m w n words rest (lines @ [cur]) word = Some (lines', cur')"
        by auto
      moreover have "int (length (lines @ [cur])) < n"
        using room by simp
      ultimately show ?thesis
        by (rule Cons.IH)
    qed
  qed
qed

lemma wrapLines_line_count:
  assumes "1 \<le> maxLinesOf rh" and "wrapLines m cw rh str = Some ls"
  shows "int (length ls) \<le> maxLinesOf rh"
proof -
  from assms(2) obtain lines cur where
    loop: "wrapLoop m (cw - 10 * 2) (maxLinesOf rh) (splitWords str) (splitWords str) [] [] = Some (lines, cur)"
    and ls: "ls = (if cur \<noteq> [] \<and> int (length lines) < maxLinesOf rh then lines @ [cur] else lines)"
    by (auto simp: wrapLines_def Let_def split: option.splits)
  have "int (length lines) \<le> maxLinesOf rh"
    using wrapLoop_line_count[OF loop] assms(1) by simp
  then show ?thesis
    unfolding ls by auto
qed

text \<open>
  \<^bold>\<open>Claim C4.\<close> The claim is that the wrap mode never produces more than \<open>maxLines\<close>
  lines and that the last produced line ends with \<open>...\<close> when the text needs more lines.
  The text \<open>aaa bbb ccc\<close> in a 70 pixel column (50 pixels of text) needs two lines, as
  the run with a tall row shows. With \<open>rowHeight = 40\<close> (one line) the loop ellipsises
  the second line in \<open>currentLine\<close> and leaves by \<open>break\<close>, and the final push is
  guarded by \<open>lines.length < maxLines\<close>, so the ellipsised line is never added: the only
  line drawn is \<open>aaa bbb\<close>. With the default \<open>rowHeight = 30\<close>, \<open>maxLines\<close> is 0 and one
  line is still produced.
\<close>

theorem wrapLines_drops_ellipsis_line:
  "wrapLines fixedPitch 70 1000 [97, 97, 97, 32, 98, 98, 98, 32, 99, 99, 99]
     = Some [[97, 97, 97, 32, 98, 98, 98], [32, 99, 99, 99]]
   \<and> maxLinesOf 40 = 1
   \<and> wrapLines fixedPitch 70 40 [97, 97, 97, 32, 98, 98, 98, 32, 99, 99, 99]
     = Some [[97, 97, 97, 32, 98, 98, 98]]
   \<and> maxLinesOf 30 = 0
   \<and> wrapLines fixedPitch 70 30 [97, 97, 97, 32, 98, 98, 98, 32, 99, 99, 99]
     = Some [[97, 97, 97, 32, 98, 98, 98]]"
  by (simp add: wrapLines_def maxLinesOf_def boundary_def isCJK_def isSpace_def fixedPitch_def
        trimLoop_exit ellipsis_def)

section \<open>Properties of the column widths\<close>

lemma visibleRows_ok:
  assumes "0 < rowHeight t" "0 \<le> s"
  shows "visibleRows t s = Inr (map nat [visibleStartIndex t s .. visibleEndIndex t s - 1])"
    and "0 \<le> visibleStartIndex t s"
proof -
  show "0 \<le> visibleStartIndex t s"
    using assms by (simp add: visibleStartIndex_def)
  then show "visibleRows t s = Inr (map nat [visibleStartIndex t s .. visibleEndIndex t s - 1])"
    using assms by (simp add: visibleRows_def)
qed

lemma visibleRows_bound:
  assumes "visibleRows t s = Inr rows" "r \<in> set rows"
  shows "r < length (data t)"
  using assms
  by (auto simp: visibleRows_def visibleEndIndex_def nat_less_iff split: if_splits)

lemma fold_max_ge_init: "(a::real) \<le> fold (\<lambda>i acc. max acc (f i)) rows a"
proof (induction rows arbitrary: a)
  case Nil
  then show ?case by simp
next
  case (Cons r rows)
  have "a \<le> max a (f r)" by simp
  also have "\<dots> \<le> fold (\<lambda>i acc. max acc (f i)) rows (max a (f r))"
    by (rule Cons.IH)
  finally show ?case by simp
qed

lemma fold_max_ge_elem:
  "r \<in> set rows \<Longrightarrow> (f r :: real) \<le> fold (\<lambda>i acc. max acc (f i)) rows a"
proof (induction rows arbitrary: a)
  case Nil
  then show ?case by simp
next
  case (Cons r' rows)
  show ?case
  proof (cases "r = r'")
    case True
    have "f r \<le> max a (f r)" by simp
    also have "\<dots> \<le> fold (\<lambda>i acc. max acc (f i)) rows (max a (f r))"
      by (rule fold_max_ge_init)
    finally show ?thesis using True by simp
  next
    case False
    with Cons.prems have "r \<in> set rows" by simp
    from Cons.IH[OF this] show ?thesis by simp
  qed
qed

lemma measureCellWidth_bounds:
  assumes "measureCellWidth (Some m) t s col = Inr w" "visibleRows t s = Inr rows"
  shows "150 \<le> w" "m (title col) + 40 \<le> w"
    "r \<in> set rows \<Longrightarrow> m (toStr ((data t ! r) (key col))) + 40 \<le> w"
proof -
  let ?f = "\<lambda>i. m (toStr ((data t ! i) (key col))) + 40"
  have w: "w = max (max (m (title col) + 40) (fold (\<lambda>i acc. max acc (?f i)) rows 0)) 150"
    using assms by (simp add: measureCellWidth_def Let_def)
  show "150 \<le> w" "m (title col) + 40 \<le> w"
    unfolding w by simp_all
  assume "r \<in> set rows"
  then have "?f r \<le> fold (\<lambda>i acc. max acc (?f i)) rows 0"
    by (rule fold_max_ge_elem)
  then show "m (toStr ((data t ! r) (key col))) + 40 \<le> w"
    unfolding w by simp
qed

lemma measureCellWidth_total:
  assumes "visibleRows t s = Inr rows"
  shows "\<exists>w. measureCellWidth (Some m) t s col = Inr w"
  using assms by (simp add: measureCellWidth_def Let_def)

lemma firstPass_total:
  assumes "visibleRows t s = Inr rows"
  shows "\<exists>base. firstPass m t s cols = Inr base"
proof (induction cols)
  case Nil
  then show ?case by simp
next
  case (Cons col cols)
  then obtain base where b: "firstPass m t s cols = Inr base" by blast
  obtain w where w: "measureCellWidth (Some m) t s col = Inr w"
    using measureCellWidth_total[OF assms] by blast
  show ?case using b w by simp
qed

lemma firstPass_nth:
  assumes "firstPass m t s cols = Inr base"
  shows "length base = length cols"
    and "i < length cols \<Longrightarrow> hasWidth (cols ! i) \<Longrightarrow> base ! i = the (width (cols ! i))"
    and "i < length cols \<Longrightarrow> \<not> hasWidth (cols ! i) \<Longrightarrow>
           measureCellWidth (Some m) t s (cols ! i) = Inr (base ! i)"
  using assms
proof (induction cols arbitrary: base i)
  case Nil
  { case 1 then show ?case by simp }
  { case 2 then show ?case by simp }
  { case 3 then show ?case by simp }
next
  case (Cons col cols)
  { case 1
    then show ?case using Cons.IH(1) by (auto split: sum.splits if_splits) }
  { case 2
    then show ?case using Cons.IH(2)
      by (cases i) (auto split: sum.splits if_splits) }
  { case 3
    then show ?case using Cons.IH(3)
      by (cases i) (auto split: sum.splits if_splits) }
qed

lemma fold_update_nth:
  assumes "distinct js" "\<forall>j\<in>set js. j < length (ws::real list)"
  shows "length (fold (\<lambda>i ws. ws[i := ws ! i + e]) js ws) = length ws"
    and "k < length ws \<Longrightarrow>
      fold (\<lambda>i ws. ws[i := ws ! i + e]) js ws ! k = (if k \<in> set js then ws ! k + e else ws ! k)"
  using assms
proof (induction js arbitrary: ws)
  case Nil
  { case 1 then show ?case by simp }
  { case 2 then show ?case by simp }
next
  case (Cons j js)
  { case 1
    then show ?case using Cons.IH(1)[of "ws[j := ws ! j + e]"] by simp }
  { case 2
    then show ?case using Cons.IH(2)[of "ws[j := ws ! j + e]"]
      by (auto simp: nth_list_update) }
qed

lemma flexColumns_props:
  "distinct (flexColumns t)"
  "set (flexColumns t) = {i. i < length (columns t) \<and> \<not> hasWidth (columns t ! i)}"
  by (auto simp: flexColumns_def)

lemma columnWidths_char:
  assumes fp: "firstPass m t s (columns t) = Inr base"
  shows "\<exists>ws. columnWidths (Some m) t s = Inr ws \<and> length ws = length (columns t)
     \<and> (\<forall>i<length (columns t). ws ! i =
           (if hasWidth (columns t ! i) then base ! i
            else base ! i + (if sum_list base < availableWidth t
                   then real_of_int \<lfloor>(availableWidth t - sum_list base) / real (length (flexColumns t))\<rfloor>
                   else 0)))"
proof -
  have len: "length base = length (columns t)"
    using firstPass_nth(1)[OF fp] .
  let ?e = "real_of_int \<lfloor>(availableWidth t - sum_list base) / real (length (flexColumns t))\<rfloor>"
  show ?thesis
  proof (cases "flexColumns t \<noteq> [] \<and> sum_list base < availableWidth t")
    case True
    have cw: "columnWidths (Some m) t s = Inr (fold (\<lambda>i ws. ws[i := ws ! i + ?e]) (flexColumns t) base)"
      using True fp by (simp add: columnWidths_def Let_def)
    have bnd: "\<forall>j\<in>set (flexColumns t). j < length base"
      using len by (simp add: flexColumns_props(2))
    have l: "length (fold (\<lambda>i ws. ws[i := ws ! i + ?e]) (flexColumns t) base) = length base"
      by (rule fold_update_nth(1)[OF flexColumns_props(1) bnd])
    have n: "\<And>k. k < length base \<Longrightarrow>
        fold (\<lambda>i ws. ws[i := ws ! i + ?e]) (flexColumns t) base ! k
          = (if k \<in> set (flexColumns t) then base ! k + ?e else base ! k)"
      by (rule fold_update_nth(2)[OF flexColumns_props(1) bnd])
    show ?thesis
      using cw l n len True by (auto simp: flexColumns_props(2))
  next
    case False
    have cw: "columnWidths (Some m) t s = Inr base"
      using False fp by (auto simp: columnWidths_def Let_def)
    have "\<And>i. i < length (columns t) \<Longrightarrow> \<not> hasWidth (columns t ! i) \<Longrightarrow> flexColumns t \<noteq> []"
      using flexColumns_props(2)[of t] by (metis (mono_tags, lifting) empty_iff mem_Collect_eq set_empty)
    then show ?thesis
      using cw len False by auto
  qed
qed


lemma columnWidths_total:
  assumes "0 < rowHeight t" "0 \<le> s"
  shows "\<exists>ws. columnWidths (Some m) t s = Inr ws \<and> length ws = length (columns t)"
proof -
  obtain base where "firstPass m t s (columns t) = Inr base"
    using firstPass_total[OF visibleRows_ok(1)[OF assms]] by blast
  from columnWidths_char[OF this] show ?thesis by blast
qed


text \<open>
  The measured minimum is one of its three candidates, the measured rows are exactly
  those of the window, and \<open>flexColumns\<close> has one index for each column without a
  width.
\<close>

lemma fold_max_attained:
  "fold (\<lambda>i acc. max acc (f i)) rows (a::real) = a
   \<or> (\<exists>r\<in>set rows. fold (\<lambda>i acc. max acc (f i)) rows a = f r)"
proof (induction rows arbitrary: a)
  case Nil
  then show ?case by simp
next
  case (Cons r rows)
  from Cons.IH[of "max a (f r)"] show ?case
  proof
    assume "fold (\<lambda>i acc. max acc (f i)) rows (max a (f r)) = max a (f r)"
    then show ?thesis
      by (cases "a \<le> f r") (auto simp: max_def)
  next
    assume "\<exists>r'\<in>set rows. fold (\<lambda>i acc. max acc (f i)) rows (max a (f r)) = f r'"
    then show ?thesis
      by auto
  qed
qed

lemma measureCellWidth_attained:
  assumes "measureCellWidth (Some m) t s col = Inr w" "visibleRows t s = Inr rows"
  shows "w = 150 \<or> w = m (title col) + 40
     \<or> (\<exists>r\<in>set rows. w = m (toStr ((data t ! r) (key col))) + 40)"
proof -
  let ?f = "\<lambda>i. m (toStr ((data t ! i) (key col))) + 40"
  let ?c = "fold (\<lambda>i acc. max acc (?f i)) rows 0"
  have w: "w = max (max (m (title col) + 40) ?c) 150"
    using assms by (simp add: measureCellWidth_def Let_def)
  from fold_max_attained[of ?f rows 0] show ?thesis
  proof
    assume "?c = 0"
    then show ?thesis
      unfolding w by (auto simp: max_def)
  next
    assume "\<exists>r\<in>set rows. ?c = ?f r"
    then obtain r where r: "r \<in> set rows" and c: "?c = ?f r"
      by blast
    have "w = 150 \<or> w = m (title col) + 40 \<or> w = ?c"
      unfolding w by (auto simp: max_def)
    then show ?thesis
      using r c by auto
  qed
qed

lemma window_rows:
  assumes "0 \<le> a"
  shows "r \<in> set (map nat [a .. b - 1]) \<longleftrightarrow> a \<le> int r \<and> int r < b"
proof
  assume "r \<in> set (map nat [a .. b - 1])"
  then obtain k where "a \<le> k" "k \<le> b - 1" "r = nat k"
    by auto
  then show "a \<le> int r \<and> int r < b"
    using assms by simp
next
  assume h: "a \<le> int r \<and> int r < b"
  then have "int r \<in> set [a .. b - 1]"
    by simp
  then have "nat (int r) \<in> nat ` set [a .. b - 1]"
    by (rule imageI)
  then show "r \<in> set (map nat [a .. b - 1])"
    by simp
qed

lemma length_flexColumns:
  "length (flexColumns t) = length (filter (\<lambda>c. \<not> hasWidth c) (columns t))"
proof -
  have "filter (\<lambda>c. \<not> hasWidth c) (columns t)
      = filter (\<lambda>c. \<not> hasWidth c) (map (\<lambda>i. columns t ! i) [0..<length (columns t)])"
    by (simp add: map_nth)
  also have "\<dots> = map (\<lambda>i. columns t ! i)
      (filter (\<lambda>i. \<not> hasWidth (columns t ! i)) [0..<length (columns t)])"
    by (simp add: filter_map o_def)
  finally show ?thesis
    by (simp add: flexColumns_def)
qed

text \<open>The resolved widths of the example tables.\<close>

lemmas eval_defs = columnWidths_def exampleTable_def measureCellWidth_def visibleRows_def
      visibleStartIndex_def visibleEndIndex_def hasWidth_def fixedPitch_def flexColumns_def
      availableWidth_def showScrollbar_def contentHeight_def containerHeight_def Let_def upto.simps

lemma exampleTable_widths:
  "columnWidths (Some fixedPitch) exampleTable 0 = Inr [320]"
  "columnWidths (Some fixedPitch) exampleTable 15 = Inr [320]"
  "columnWidths (Some fixedPitch) exampleTable 60 = Inr [188]"
  by (simp_all add: eval_defs)

lemma twoColumnTable_widths:
  "columnWidths (Some fixedPitch) twoColumnTable 0 = Inr [320, 320]"
  by (simp add: eval_defs twoColumnTable_def)

lemma unit_row_widths:
  "columnWidths (Some fixedPitch) (exampleTable\<lparr>rowHeight := 1\<rparr>) 0 = Inr [320]"
  by (simp add: eval_defs)


lemma mixedTable_widths:
  "firstPass fixedPitch mixedTable 0 (columns mixedTable) = Inr [100, 320, 320]"
  "columnWidths (Some fixedPitch) mixedTable 0 = Inr [100, 394, 394]"
  by (simp_all add: eval_defs mixedTable_def)

lemma tallTable_widths:
  "columnWidths (Some fixedPitch) tallTable 15 = Inr [320]"
  by (simp add: eval_defs tallTable_def)

lemma exampleTable_totalWidth:
  "totalWidth fixedPitch exampleTable 0 = Inr 320"
  "totalWidth fixedPitch exampleTable 60 = Inr 188"
  by (simp_all add: totalWidth_def exampleTable_widths)

lemma exampleTable_heights:
  "contentHeight exampleTable = 90" "containerHeight exampleTable = 30"
  "containerWidth exampleTable = 200" "rowHeight exampleTable = 30"
  by (simp_all add: contentHeight_def containerHeight_def exampleTable_def)


text \<open>
  \<^bold>\<open>Claim C2\<close> (as amended). For a mounted table with a positive row height and a
  non-negative scroll offset the resolver returns one width for each column. A column
  whose declared width is present and not zero gets exactly that width, in the first
  pass and in the result, and no share of the slack. Every other column (width absent
  or zero) gets in the first pass the value of \<open>measureCellWidth\<close>: the largest of
  150, the header width plus 40 and the width plus 40 of every cell of the rows from
  \<open>floor(scrollTop / rowHeight)\<close> up to, and not including,
  \<open>min(data.length, ceil((scrollTop + clientHeight) / rowHeight))\<close>. The available
  width is the container width, less 12 pixels when the vertical scrollbar shows
  (\<open>data.length * rowHeight > clientHeight - headerHeight\<close>). When the sum of the
  first-pass widths is below the available width, such a column gets exactly the floor
  of the slack divided by the number of columns without a width in addition, and
  otherwise nothing.
\<close>

theorem columnWidths_resolution:
  assumes rh: "0 < rowHeight t" and s0: "0 \<le> s" and i: "i < length (columns t)"
  shows "\<exists>ws base.
      columnWidths (Some m) t s = Inr ws \<and> firstPass m t s (columns t) = Inr base
      \<and> length ws = length (columns t) \<and> length base = length (columns t)
      \<and> (hasWidth (columns t ! i) \<longrightarrow>
            base ! i = the (width (columns t ! i)) \<and> ws ! i = the (width (columns t ! i)))
      \<and> (\<not> hasWidth (columns t ! i) \<longrightarrow>
            measureCellWidth (Some m) t s (columns t ! i) = Inr (base ! i)
            \<and> 150 \<le> base ! i
            \<and> m (title (columns t ! i)) + 40 \<le> base ! i
            \<and> (\<forall>r. \<lfloor>s / rowHeight t\<rfloor> \<le> int r
                    \<and> int r < min (int (length (data t))) \<lceil>(s + clientHeight t) / rowHeight t\<rceil>
                  \<longrightarrow> m (toStr ((data t ! r) (key (columns t ! i)))) + 40 \<le> base ! i)
            \<and> (base ! i = 150 \<or> base ! i = m (title (columns t ! i)) + 40
                 \<or> (\<exists>r. \<lfloor>s / rowHeight t\<rfloor> \<le> int r
                       \<and> int r < min (int (length (data t))) \<lceil>(s + clientHeight t) / rowHeight t\<rceil>
                       \<and> base ! i = m (toStr ((data t ! r) (key (columns t ! i)))) + 40))
            \<and> base ! i \<le> ws ! i
            \<and> ws ! i = base ! i +
                 (if sum_list base
                       < containerWidth t
                         - (if real (length (data t)) * rowHeight t > clientHeight t - headerHeight t
                            then 12 else 0)
                  then real_of_int
                         \<lfloor>(containerWidth t
                            - (if real (length (data t)) * rowHeight t > clientHeight t - headerHeight t
                               then 12 else 0)
                            - sum_list base)
                           / real (length (filter (\<lambda>c. \<not> hasWidth c) (columns t)))\<rfloor>
                  else 0))"
proof -
  let ?a = "visibleStartIndex t s" and ?b = "visibleEndIndex t s"
  let ?rows = "map nat [?a .. ?b - 1]"
  have vr: "visibleRows t s = Inr ?rows" and a0: "0 \<le> ?a"
    using visibleRows_ok[OF rh s0] by simp_all
  have win: "\<And>r. r \<in> set ?rows \<longleftrightarrow>
      \<lfloor>s / rowHeight t\<rfloor> \<le> int r
      \<and> int r < min (int (length (data t))) \<lceil>(s + clientHeight t) / rowHeight t\<rceil>"
    using window_rows[OF a0] by (simp add: visibleStartIndex_def visibleEndIndex_def)
  obtain base where fp: "firstPass m t s (columns t) = Inr base"
    using firstPass_total[OF vr] by blast
  have lb: "length base = length (columns t)"
    using firstPass_nth(1)[OF fp] .
  have av: "availableWidth t = containerWidth t
      - (if real (length (data t)) * rowHeight t > clientHeight t - headerHeight t then 12 else 0)"
    by (simp add: availableWidth_def showScrollbar_def contentHeight_def containerHeight_def)
  let ?share = "if sum_list base < availableWidth t
                  then real_of_int \<lfloor>(availableWidth t - sum_list base)
                                      / real (length (flexColumns t))\<rfloor>
                  else 0"
  obtain ws where cw: "columnWidths (Some m) t s = Inr ws"
    and len: "length ws = length (columns t)"
    and nth: "\<forall>i<length (columns t). ws ! i =
           (if hasWidth (columns t ! i) then base ! i else base ! i + ?share)"
    using columnWidths_char[OF fp] by blast
  have fixed: "hasWidth (columns t ! i) \<longrightarrow>
      base ! i = the (width (columns t ! i)) \<and> ws ! i = the (width (columns t ! i))"
    using nth i firstPass_nth(2)[OF fp i] by simp
  have share0: "0 \<le> ?share"
    by (simp add: divide_nonneg_nonneg)
  have flex: "\<not> hasWidth (columns t ! i) \<longrightarrow>
            measureCellWidth (Some m) t s (columns t ! i) = Inr (base ! i)
            \<and> 150 \<le> base ! i
            \<and> m (title (columns t ! i)) + 40 \<le> base ! i
            \<and> (\<forall>r. r \<in> set ?rows \<longrightarrow> m (toStr ((data t ! r) (key (columns t ! i)))) + 40 \<le> base ! i)
            \<and> (base ! i = 150 \<or> base ! i = m (title (columns t ! i)) + 40
                 \<or> (\<exists>r. r \<in> set ?rows
                       \<and> base ! i = m (toStr ((data t ! r) (key (columns t ! i)))) + 40))
            \<and> base ! i \<le> ws ! i
            \<and> ws ! i = base ! i + ?share"
  proof
    assume nf: "\<not> hasWidth (columns t ! i)"
    have mc: "measureCellWidth (Some m) t s (columns t ! i) = Inr (base ! i)"
      using firstPass_nth(3)[OF fp i nf] .
    have eq: "ws ! i = base ! i + ?share"
      using nth i nf by simp
    have le: "base ! i \<le> ws ! i"
      using share0 unfolding eq by linarith
    have att: "base ! i = 150 \<or> base ! i = m (title (columns t ! i)) + 40
                 \<or> (\<exists>r. r \<in> set ?rows
                       \<and> base ! i = m (toStr ((data t ! r) (key (columns t ! i)))) + 40)"
      using measureCellWidth_attained[OF mc vr] by blast
    show "measureCellWidth (Some m) t s (columns t ! i) = Inr (base ! i)
            \<and> 150 \<le> base ! i
            \<and> m (title (columns t ! i)) + 40 \<le> base ! i
            \<and> (\<forall>r. r \<in> set ?rows \<longrightarrow> m (toStr ((data t ! r) (key (columns t ! i)))) + 40 \<le> base ! i)
            \<and> (base ! i = 150 \<or> base ! i = m (title (columns t ! i)) + 40
                 \<or> (\<exists>r. r \<in> set ?rows
                       \<and> base ! i = m (toStr ((data t ! r) (key (columns t ! i)))) + 40))
            \<and> base ! i \<le> ws ! i
            \<and> ws ! i = base ! i + ?share"
      using mc eq le att measureCellWidth_bounds[OF mc vr] by blast
  qed
  show ?thesis
    apply (rule exI[of _ ws], rule exI[of _ base])
    using cw fp len lb fixed flex
    unfolding win av[symmetric] length_flexColumns[symmetric]
    by simp
qed

theorem columnWidths_resolution_witness:
  "columnWidths (Some fixedPitch) mixedTable 0 = Inr [100, 394, 394]
   \<and> firstPass fixedPitch mixedTable 0 (columns mixedTable) = Inr [100, 320, 320]
   \<and> hasWidth (columns mixedTable ! 0) \<and> \<not> hasWidth (columns mixedTable ! 1)
   \<and> (\<exists>ws base.
      columnWidths (Some fixedPitch) mixedTable 0 = Inr ws \<and> firstPass fixedPitch mixedTable 0 (columns mixedTable) = Inr base
      \<and> length ws = length (columns mixedTable) \<and> length base = length (columns mixedTable)
      \<and> (hasWidth (columns mixedTable ! 0) \<longrightarrow>
            base ! 0 = the (width (columns mixedTable ! 0)) \<and> ws ! 0 = the (width (columns mixedTable ! 0)))
      \<and> (\<not> hasWidth (columns mixedTable ! 0) \<longrightarrow>
            measureCellWidth (Some fixedPitch) mixedTable 0 (columns mixedTable ! 0) = Inr (base ! 0)
            \<and> 150 \<le> base ! 0
            \<and> fixedPitch (title (columns mixedTable ! 0)) + 40 \<le> base ! 0
            \<and> (\<forall>r. \<lfloor>0 / rowHeight mixedTable\<rfloor> \<le> int r
                    \<and> int r < min (int (length (data mixedTable))) \<lceil>(0 + clientHeight mixedTable) / rowHeight mixedTable\<rceil>
                  \<longrightarrow> fixedPitch (toStr ((data mixedTable ! r) (key (columns mixedTable ! 0)))) + 40 \<le> base ! 0)
            \<and> (base ! 0 = 150 \<or> base ! 0 = fixedPitch (title (columns mixedTable ! 0)) + 40
                 \<or> (\<exists>r. \<lfloor>0 / rowHeight mixedTable\<rfloor> \<le> int r
                       \<and> int r < min (int (length (data mixedTable))) \<lceil>(0 + clientHeight mixedTable) / rowHeight mixedTable\<rceil>
                       \<and> base ! 0 = fixedPitch (toStr ((data mixedTable ! r) (key (columns mixedTable ! 0)))) + 40))
            \<and> base ! 0 \<le> ws ! 0
            \<and> ws ! 0 = base ! 0 +
                 (if sum_list base
                       < containerWidth mixedTable
                         - (if real (length (data mixedTable)) * rowHeight mixedTable > clientHeight mixedTable - headerHeight mixedTable
                            then 12 else 0)
                  then real_of_int
                         \<lfloor>(containerWidth mixedTable
                            - (if real (length (data mixedTable)) * rowHeight mixedTable > clientHeight mixedTable - headerHeight mixedTable
                               then 12 else 0)
                            - sum_list base)
                           / real (length (filter (\<lambda>c. \<not> hasWidth c) (columns mixedTable)))\<rfloor>
                  else 0)))
   \<and> (\<exists>ws base.
      columnWidths (Some fixedPitch) mixedTable 0 = Inr ws \<and> firstPass fixedPitch mixedTable 0 (columns mixedTable) = Inr base
      \<and> length ws = length (columns mixedTable) \<and> length base = length (columns mixedTable)
      \<and> (hasWidth (columns mixedTable ! 1) \<longrightarrow>
            base ! 1 = the (width (columns mixedTable ! 1)) \<and> ws ! 1 = the (width (columns mixedTable ! 1)))
      \<and> (\<not> hasWidth (columns mixedTable ! 1) \<longrightarrow>
            measureCellWidth (Some fixedPitch) mixedTable 0 (columns mixedTable ! 1) = Inr (base ! 1)
            \<and> 150 \<le> base ! 1
            \<and> fixedPitch (title (columns mixedTable ! 1)) + 40 \<le> base ! 1
            \<and> (\<forall>r. \<lfloor>0 / rowHeight mixedTable\<rfloor> \<le> int r
                    \<and> int r < min (int (length (data mixedTable))) \<lceil>(0 + clientHeight mixedTable) / rowHeight mixedTable\<rceil>
                  \<longrightarrow> fixedPitch (toStr ((data mixedTable ! r) (key (columns mixedTable ! 1)))) + 40 \<le> base ! 1)
            \<and> (base ! 1 = 150 \<or> base ! 1 = fixedPitch (title (columns mixedTable ! 1)) + 40
                 \<or> (\<exists>r. \<lfloor>0 / rowHeight mixedTable\<rfloor> \<le> int r
                       \<and> int r < min (int (length (data mixedTable))) \<lceil>(0 + clientHeight mixedTable) / rowHeight mixedTable\<rceil>
                       \<and> base ! 1 = fixedPitch (toStr ((data mixedTable ! r) (key (columns mixedTable ! 1)))) + 40))
            \<and> base ! 1 \<le> ws ! 1
            \<and> ws ! 1 = base ! 1 +
                 (if sum_list base
                       < containerWidth mixedTable
                         - (if real (length (data mixedTable)) * rowHeight mixedTable > clientHeight mixedTable - headerHeight mixedTable
                            then 12 else 0)
                  then real_of_int
                         \<lfloor>(containerWidth mixedTable
                            - (if real (length (data mixedTable)) * rowHeight mixedTable > clientHeight mixedTable - headerHeight mixedTable
                               then 12 else 0)
                            - sum_list base)
                           / real (length (filter (\<lambda>c. \<not> hasWidth c) (columns mixedTable)))\<rfloor>
                  else 0)))"
proof -
  have rh: "0 < rowHeight mixedTable"
    by (simp add: mixedTable_def exampleTable_def)
  have fixed: "\<exists>ws base.
      columnWidths (Some fixedPitch) mixedTable 0 = Inr ws \<and> firstPass fixedPitch mixedTable 0 (columns mixedTable) = Inr base
      \<and> length ws = length (columns mixedTable) \<and> length base = length (columns mixedTable)
      \<and> (hasWidth (columns mixedTable ! 0) \<longrightarrow>
            base ! 0 = the (width (columns mixedTable ! 0)) \<and> ws ! 0 = the (width (columns mixedTable ! 0)))
      \<and> (\<not> hasWidth (columns mixedTable ! 0) \<longrightarrow>
            measureCellWidth (Some fixedPitch) mixedTable 0 (columns mixedTable ! 0) = Inr (base ! 0)
            \<and> 150 \<le> base ! 0
            \<and> fixedPitch (title (columns mixedTable ! 0)) + 40 \<le> base ! 0
            \<and> (\<forall>r. \<lfloor>0 / rowHeight mixedTable\<rfloor> \<le> int r
                    \<and> int r < min (int (length (data mixedTable))) \<lceil>(0 + clientHeight mixedTable) / rowHeight mixedTable\<rceil>
                  \<longrightarrow> fixedPitch (toStr ((data mixedTable ! r) (key (columns mixedTable ! 0)))) + 40 \<le> base ! 0)
            \<and> (base ! 0 = 150 \<or> base ! 0 = fixedPitch (title (columns mixedTable ! 0)) + 40
                 \<or> (\<exists>r. \<lfloor>0 / rowHeight mixedTable\<rfloor> \<le> int r
                       \<and> int r < min (int (length (data mixedTable))) \<lceil>(0 + clientHeight mixedTable) / rowHeight mixedTable\<rceil>
                       \<and> base ! 0 = fixedPitch (toStr ((data mixedTable ! r) (key (columns mixedTable ! 0)))) + 40))
            \<and> base ! 0 \<le> ws ! 0
            \<and> ws ! 0 = base ! 0 +
                 (if sum_list base
                       < containerWidth mixedTable
                         - (if real (length (data mixedTable)) * rowHeight mixedTable > clientHeight mixedTable - headerHeight mixedTable
                            then 12 else 0)
                  then real_of_int
                         \<lfloor>(containerWidth mixedTable
                            - (if real (length (data mixedTable)) * rowHeight mixedTable > clientHeight mixedTable - headerHeight mixedTable
                               then 12 else 0)
                            - sum_list base)
                           / real (length (filter (\<lambda>c. \<not> hasWidth c) (columns mixedTable)))\<rfloor>
                  else 0))"
    by (rule columnWidths_resolution[OF rh]) (simp_all add: mixedTable_def)
  have flexible: "\<exists>ws base.
      columnWidths (Some fixedPitch) mixedTable 0 = Inr ws \<and> firstPass fixedPitch mixedTable 0 (columns mixedTable) = Inr base
      \<and> length ws = length (columns mixedTable) \<and> length base = length (columns mixedTable)
      \<and> (hasWidth (columns mixedTable ! 1) \<longrightarrow>
            base ! 1 = the (width (columns mixedTable ! 1)) \<and> ws ! 1 = the (width (columns mixedTable ! 1)))
      \<and> (\<not> hasWidth (columns mixedTable ! 1) \<longrightarrow>
            measureCellWidth (Some fixedPitch) mixedTable 0 (columns mixedTable ! 1) = Inr (base ! 1)
            \<and> 150 \<le> base ! 1
            \<and> fixedPitch (title (columns mixedTable ! 1)) + 40 \<le> base ! 1
            \<and> (\<forall>r. \<lfloor>0 / rowHeight mixedTable\<rfloor> \<le> int r
                    \<and> int r < min (int (length (data mixedTable))) \<lceil>(0 + clientHeight mixedTable) / rowHeight mixedTable\<rceil>
                  \<longrightarrow> fixedPitch (toStr ((data mixedTable ! r) (key (columns mixedTable ! 1)))) + 40 \<le> base ! 1)
            \<and> (base ! 1 = 150 \<or> base ! 1 = fixedPitch (title (columns mixedTable ! 1)) + 40
                 \<or> (\<exists>r. \<lfloor>0 / rowHeight mixedTable\<rfloor> \<le> int r
                       \<and> int r < min (int (length (data mixedTable))) \<lceil>(0 + clientHeight mixedTable) / rowHeight mixedTable\<rceil>
                       \<and> base ! 1 = fixedPitch (toStr ((data mixedTable ! r) (key (columns mixedTable ! 1)))) + 40))
            \<and> base ! 1 \<le> ws ! 1
            \<and> ws ! 1 = base ! 1 +
                 (if sum_list base
                       < containerWidth mixedTable
                         - (if real (length (data mixedTable)) * rowHeight mixedTable > clientHeight mixedTable - headerHeight mixedTable
                            then 12 else 0)
                  then real_of_int
                         \<lfloor>(containerWidth mixedTable
                            - (if real (length (data mixedTable)) * rowHeight mixedTable > clientHeight mixedTable - headerHeight mixedTable
                               then 12 else 0)
                            - sum_list base)
                           / real (length (filter (\<lambda>c. \<not> hasWidth c) (columns mixedTable)))\<rfloor>
                  else 0))"
    by (rule columnWidths_resolution[OF rh]) (simp_all add: mixedTable_def)
  show ?thesis
    by (intro conjI fixed flexible mixedTable_widths)
       (simp_all add: mixedTable_def hasWidth_def)
qed

text \<open>
  The claim as it was stated (every column with a declared width gets that width) fails
  for a declared width of zero: \<open>if (column.width)\<close> is false for 0, so the column is
  measured like a column with no width.
\<close>

theorem zero_width_column_is_flexible:
  "width (columns (exampleTable\<lparr>columns := [\<lparr>key = [97], title = [97], width = Some 0\<rparr>]\<rparr>) ! 0) = Some 0
   \<and> columnWidths (Some fixedPitch)
        (exampleTable\<lparr>columns := [\<lparr>key = [97], title = [97], width = Some 0\<rparr>]\<rparr>) 0 = Inr [320]"
  by (simp add: columnWidths_def exampleTable_def measureCellWidth_def visibleRows_def
      visibleStartIndex_def visibleEndIndex_def hasWidth_def fixedPitch_def flexColumns_def
      availableWidth_def showScrollbar_def contentHeight_def containerHeight_def Let_def upto.simps)

text \<open>
  \<^bold>\<open>Claim C8\<close> (as amended). While a row is inside the measured row window of the
  current scroll offset, the resolved width of a flexible column is at least the width
  of that row's cell plus 40. The width is computed from the current window alone, at
  every scroll offset.
\<close>

theorem flexible_width_covers_visible_cells:
  assumes rh: "0 < rowHeight t" and s0: "0 \<le> s" and i: "i < length (columns t)"
    and nf: "\<not> hasWidth (columns t ! i)"
    and lo: "visibleStartIndex t s \<le> int r" and hi: "int r < visibleEndIndex t s"
  shows "\<exists>ws. columnWidths (Some m) t s = Inr ws
     \<and> m (toStr ((data t ! r) (key (columns t ! i)))) + 40 \<le> ws ! i"
proof -
  let ?rows = "map nat [visibleStartIndex t s .. visibleEndIndex t s - 1]"
  have vr: "visibleRows t s = Inr ?rows"
    using visibleRows_ok(1)[OF rh s0] .
  have "int r \<in> set [visibleStartIndex t s .. visibleEndIndex t s - 1]"
    using lo hi by simp
  then have "nat (int r) \<in> nat ` set [visibleStartIndex t s .. visibleEndIndex t s - 1]"
    by (rule imageI)
  then have mem: "r \<in> set ?rows"
    by simp
  obtain base where fp: "firstPass m t s (columns t) = Inr base"
    using firstPass_total[OF vr] by blast
  have mc: "measureCellWidth (Some m) t s (columns t ! i) = Inr (base ! i)"
    using firstPass_nth(3)[OF fp i nf] .
  have cell: "m (toStr ((data t ! r) (key (columns t ! i)))) + 40 \<le> base ! i"
    using measureCellWidth_bounds(3)[OF mc vr mem] .
  let ?share = "if sum_list base < availableWidth t
                  then real_of_int \<lfloor>(availableWidth t - sum_list base)
                                      / real (length (flexColumns t))\<rfloor>
                  else 0"
  obtain ws where cw: "columnWidths (Some m) t s = Inr ws"
    and nth: "\<forall>i<length (columns t). ws ! i =
           (if hasWidth (columns t ! i) then base ! i else base ! i + ?share)"
    using columnWidths_char[OF fp] by blast
  have "0 \<le> ?share"
    by (simp add: divide_nonneg_nonneg)
  moreover have "ws ! i = base ! i + ?share"
    using nth i nf by simp
  ultimately have "base ! i \<le> ws ! i"
    by linarith
  with cell cw show ?thesis
    by (intro exI[of _ ws]) linarith
qed

theorem flexible_width_covers_visible_cells_witness:
  "\<exists>ws. columnWidths (Some fixedPitch) exampleTable 0 = Inr ws
     \<and> fixedPitch (toStr ((data exampleTable ! 0) (key (columns exampleTable ! 0)))) + 40 \<le> ws ! 0"
  by (rule flexible_width_covers_visible_cells)
     (simp_all add: exampleTable_def hasWidth_def visibleStartIndex_def visibleEndIndex_def)

text \<open>
  The claim as it was stated (a width that has grown never shrinks when the scroll
  offset changes) fails: in the example table the column is 320 pixels wide while the
  long first row is in the window, and 188 pixels after the wheel has moved the window
  past that row.
\<close>

theorem width_shrinks_when_wide_cell_leaves:
  "columnWidths (Some fixedPitch) exampleTable 0 = Inr [320]
   \<and> handleWheel fixedPitch exampleTable initialState \<lparr>shiftKey = False, deltaX = 0, deltaY = 60\<rparr>
       = Inr (initialState\<lparr>scrollTop := 60\<rparr>)
   \<and> columnWidths (Some fixedPitch) exampleTable 60 = Inr [188]"
  by (simp add: handleWheel_def initialState_def exampleTable_widths exampleTable_heights)

section \<open>Properties of hit testing\<close>

lemma findColumn_past:
  assumes "\<forall>w\<in>set ws. 0 \<le> w" "cx + sum_list ws \<le> x"
  shows "findColumn ws x cx i = 0"
  using assms
proof (induction ws arbitrary: cx i)
  case Nil
  then show ?case by simp
next
  case (Cons w ws)
  have "0 \<le> sum_list ws"
    using Cons.prems(1) by (simp add: sum_list_nonneg)
  then have "\<not> x < cx + w"
    using Cons.prems(2) by simp
  moreover have "findColumn ws x (cx + w) (Suc i) = 0"
    using Cons.prems by (intro Cons.IH) (simp_all add: add.assoc)
  ultimately show ?case by simp
qed

lemma findColumn_hit:
  assumes "c < length ws" "\<forall>j<c. 0 \<le> ws ! j" "1 < ws ! c"
  shows "findColumn ws (cx + sum_list (take c ws) + 1) cx i = i + c"
  using assms
proof (induction ws arbitrary: c cx i)
  case Nil
  then show ?case by simp
next
  case (Cons w ws)
  show ?case
  proof (cases c)
    case 0
    with Cons.prems show ?thesis by simp
  next
    case (Suc c')
    have w0: "0 \<le> w"
      using Cons.prems(2) Suc by auto
    have pre: "\<forall>j<c'. 0 \<le> ws ! j"
      using Cons.prems(2) Suc by auto
    have "0 \<le> sum_list (take c' ws)"
    proof (rule sum_list_nonneg)
      fix v assume "v \<in> set (take c' ws)"
      then obtain j where "j < length (take c' ws)" "v = take c' ws ! j"
        by (auto simp: in_set_conv_nth)
      then show "0 \<le> v" using pre by simp
    qed
    then have nn: "0 \<le> sum_list (take c' ws)" .
    define X where "X = cx + sum_list (take c (w # ws)) + 1"
    have X2: "X = (cx + w) + sum_list (take c' ws) + 1"
      using Suc by (simp add: X_def)
    have miss: "\<not> X < cx + w"
      using nn unfolding X2 by simp
    have "findColumn (w # ws) X cx i = findColumn ws X (cx + w) (Suc i)"
      using miss by simp
    also have "\<dots> = Suc i + c'"
      unfolding X2 using Cons.prems Suc pre by (intro Cons.IH) auto
    finally show ?thesis
      using Suc by (simp add: X_def)
  qed
qed

lemma rowIndexAt_roundtrip:
  assumes "1 < rowHeight t"
  shows "rowIndexAt t s (headerHeight t + real r * rowHeight t - s + 1) = Finite (real r)"
proof -
  have "\<lfloor>(real r * rowHeight t + 1) / rowHeight t\<rfloor> = int r"
  proof (rule floor_unique)
    show "of_int (int r) \<le> (real r * rowHeight t + 1) / rowHeight t"
      using assms by (simp add: field_simps)
    show "(real r * rowHeight t + 1) / rowHeight t < of_int (int r) + 1"
      using assms by (simp add: field_simps)
  qed
  moreover have "headerHeight t + real r * rowHeight t - s + 1 - headerHeight t + s = real r * rowHeight t + 1"
    by simp
  ultimately show ?thesis
    using assms by (simp add: rowIndexAt_def Let_def)
qed

text \<open>
  The two properties of the hit test for any list of widths, one for each column, and
  for the widths of the first version of the component.
\<close>

lemma cellAt_round_trip:
  assumes rh: "1 < rowHeight t" and c: "c < length (columns t)"
    and len: "length ws = length (columns t)"
    and wide: "1 < ws ! c" and pre: "\<forall>j<c. 0 \<le> ws ! j"
    and below: "s \<le> real r * rowHeight t + 1"
  shows "\<exists>cl. cellAt t ws s (sum_list (take c ws) + 1)
                 (headerHeight t + real r * rowHeight t - s + 1) = Inr (Some cl)
            \<and> rowIndex cl = Finite (real r) \<and> columnIndex cl = c"
proof -
  have col: "findColumn ws (sum_list (take c ws) + 1) 0 0 = c"
    using findColumn_hit[of c ws 0 0] c len wide pre by simp
  have y: "\<not> headerHeight t + real r * rowHeight t - s + 1 < headerHeight t"
    using below by simp
  have ne: "columns t \<noteq> []"
    using c by auto
  show ?thesis
    using col y ne rowIndexAt_roundtrip[OF rh, of s r]
    by (simp add: cellAt_def Let_def)
qed

lemma cellAt_past_last_column:
  assumes ne: "columns t \<noteq> []" and y: "headerHeight t \<le> y"
    and nonneg: "\<forall>w\<in>set ws. 0 \<le> w" and x: "sum_list ws \<le> x"
  shows "\<exists>cl. cellAt t ws s x y = Inr (Some cl) \<and> columnIndex cl = 0"
proof -
  have "findColumn ws x 0 0 = 0"
    using findColumn_past[of ws 0 x 0] nonneg x by simp
  then show ?thesis
    using ne y by (simp add: cellAt_def Let_def)
qed

lemma getCellFromPointV1_round_trip:
  assumes "1 < rowHeight t" and "c < length (columns t)"
    and "1 < renderedWidthsV1 t st ! c" and "\<forall>j<c. 0 \<le> renderedWidthsV1 t st ! j"
    and "scrollTop st \<le> real r * rowHeight t + 1"
  shows "\<exists>cl. getCellFromPointV1 t st (sum_list (take c (renderedWidthsV1 t st)) + 1)
                 (headerHeight t + real r * rowHeight t - scrollTop st + 1) = Inr (Some cl)
            \<and> rowIndex cl = Finite (real r) \<and> columnIndex cl = c"
  unfolding getCellFromPointV1_def
  using assms by (intro cellAt_round_trip) (simp_all add: renderedWidthsV1_def)

lemma getCellFromPointV1_past_last_column:
  assumes "columns t \<noteq> []" and "headerHeight t \<le> y"
    and "\<forall>w\<in>set (renderedWidthsV1 t st). 0 \<le> w" and "sum_list (renderedWidthsV1 t st) \<le> x"
  shows "\<exists>cl. getCellFromPointV1 t st x y = Inr (Some cl) \<and> columnIndex cl = 0"
  unfolding getCellFromPointV1_def
  using assms by (intro cellAt_past_last_column)

lemma columnWidths_length:
  assumes "columnWidths (Some m) t s = Inr ws"
  shows "length ws = length (columns t)"
proof -
  obtain base where fp: "firstPass m t s (columns t) = Inr base"
    using assms by (auto simp: columnWidths_def split: sum.splits)
  from columnWidths_char[OF fp] assms show ?thesis
    by auto
qed

text \<open>
  \<^bold>\<open>Claim C5\<close> (as amended). Let the row height exceed 1, let the resolved width of
  column \<open>c\<close> exceed 1 and let no column before \<open>c\<close> have a negative width. For a row \<open>r\<close>
  whose constructed \<open>y\<close> is not above the lower edge of the header
  (\<open>scrollTop \<le> r * rowHeight + 1\<close>), \<open>getCellFromPoint\<close> at
  \<open>x = (sum of the widths before c) + 1\<close> and
  \<open>y = headerHeight + r * rowHeight - scrollTop + 1\<close> returns row \<open>r\<close> and column \<open>c\<close>.
\<close>

theorem hit_test_round_trip:
  assumes rh: "1 < rowHeight t" and c: "c < length (columns t)"
    and cw: "columnWidths (Some m) t s = Inr ws"
    and wide: "1 < ws ! c" and pre: "\<forall>j<c. 0 \<le> ws ! j"
    and below: "s \<le> real r * rowHeight t + 1"
  shows "\<exists>cl. getCellFromPoint m t s (sum_list (take c ws) + 1)
                 (headerHeight t + real r * rowHeight t - s + 1) = Inr (Some cl)
            \<and> rowIndex cl = Finite (real r) \<and> columnIndex cl = c"
proof -
  have len: "length ws = length (columns t)"
    using cw by (rule columnWidths_length)
  have y: "\<not> headerHeight t + real r * rowHeight t - s + 1 < headerHeight t"
    using below by simp
  have "getCellFromPoint m t s (sum_list (take c ws) + 1)
          (headerHeight t + real r * rowHeight t - s + 1)
        = cellAt t ws s (sum_list (take c ws) + 1)
            (headerHeight t + real r * rowHeight t - s + 1)"
    using cw y by (simp add: getCellFromPoint_def)
  then show ?thesis
    using cellAt_round_trip[OF rh c len wide pre below] by simp
qed

theorem hit_test_round_trip_witness:
  "\<exists>cl. getCellFromPoint fixedPitch twoColumnTable 0 (sum_list (take 1 [320, 320]) + 1)
                 (headerHeight twoColumnTable + real 2 * rowHeight twoColumnTable - 0 + 1) = Inr (Some cl)
            \<and> rowIndex cl = Finite (real 2) \<and> columnIndex cl = 1"
  by (rule hit_test_round_trip[where ws = "[320, 320]"])
     (simp_all add: twoColumnTable_widths, simp_all add: twoColumnTable_def exampleTable_def less_Suc_eq)

text \<open>
  The claim as it was stated fails in two ways. A first rendered row that is partly
  scrolled under the header (row 0 at \<open>scrollTop = 15\<close>) has its constructed \<open>y\<close> inside
  the header band, and the function returns \<open>null\<close>. With a row height of 1 the
  constructed \<open>y\<close> already lies in the next row.
\<close>

theorem hit_test_round_trip_counterexample:
  "visibleStartIndex exampleTable 15 = 0
   \<and> getCellFromPoint fixedPitch exampleTable 15 (sum_list (take 0 [320]) + 1)
        (headerHeight exampleTable + real 0 * rowHeight exampleTable - 15 + 1) = Inr None
   \<and> map_option rowIndex (projr (getCellFromPoint fixedPitch (exampleTable\<lparr>rowHeight := 1\<rparr>) 0
        (sum_list (take 0 [320]) + 1) (40 + real 0 * 1 - 0 + 1))) = Some (Finite 1)"
  by (simp add: getCellFromPoint_def cellAt_def unit_row_widths rowIndexAt_def Let_def)
     (simp add: exampleTable_def visibleStartIndex_def)

text \<open>
  \<^bold>\<open>Claim C6\<close> (as amended). For a pointer at or below the header band
  (\<open>y \<ge> headerHeight\<close>) whose \<open>x\<close> is at least the total resolved width, where no
  resolved width is negative, \<open>getCellFromPoint\<close> returns column index 0, the first
  column: the loop finds no column and \<open>columnIndex\<close> keeps its initial value.
\<close>

theorem past_last_column_gives_first:
  assumes ne: "columns t \<noteq> []" and y: "headerHeight t \<le> y"
    and cw: "columnWidths (Some m) t s = Inr ws"
    and nonneg: "\<forall>w\<in>set ws. 0 \<le> w" and x: "sum_list ws \<le> x"
  shows "\<exists>cl. getCellFromPoint m t s x y = Inr (Some cl) \<and> columnIndex cl = 0"
proof -
  have "getCellFromPoint m t s x y = cellAt t ws s x y"
    using cw y by (simp add: getCellFromPoint_def)
  then show ?thesis
    using cellAt_past_last_column[OF ne y nonneg x] by simp
qed

theorem past_last_column_gives_first_witness:
  "\<exists>cl. getCellFromPoint fixedPitch twoColumnTable 0 640 50 = Inr (Some cl) \<and> columnIndex cl = 0"
  by (rule past_last_column_gives_first[where ws = "[320, 320]"])
     (simp_all add: twoColumnTable_widths, simp_all add: twoColumnTable_def exampleTable_def)

text \<open>
  The claim as it was stated (the last column is returned) fails with two columns of
  320 pixels: at \<open>x = 640\<close> the column index is 0 and the last column is 1.
\<close>

theorem past_last_column_counterexample:
  "totalWidth fixedPitch twoColumnTable 0 = Inr 640
   \<and> length (columns twoColumnTable) - 1 = 1
   \<and> map_option columnIndex (projr (getCellFromPoint fixedPitch twoColumnTable 0 640 50)) = Some 0"
  by (simp add: totalWidth_def getCellFromPoint_def cellAt_def twoColumnTable_widths Let_def)
     (simp add: twoColumnTable_def exampleTable_def)

section \<open>Properties of the pointer handlers\<close>

text \<open>
  \<open>handleContextMenu\<close> emits nothing over the header band and one notification
  anywhere below it, whatever the row index is.
\<close>

lemma handleContextMenu_below_header:
  assumes "columns t \<noteq> []" and "columnWidths (Some m) t (scrollTop st) = Inr ws"
    and "headerHeight t \<le> offsetY e"
  shows "\<exists>c. handleContextMenu m t st e = Inr [\<lparr>notifiedCell = c, notifiedEvent = e\<rparr>]"
  using assms by (simp add: handleContextMenu_def getCellFromPoint_def cellAt_def Let_def)

lemma handleContextMenu_over_header:
  assumes "offsetY e < headerHeight t"
  shows "handleContextMenu m t st e = Inr []"
  using assms by (simp add: handleContextMenu_def getCellFromPoint_def)

text \<open>
  \<^bold>\<open>Claim C9.\<close> The claim is that \<open>context-menu\<close> is emitted exactly when the pointer
  resolves to a valid cell, and not for a row index at or beyond the row count.
  \<open>handleContextMenu\<close> tests only \<open>if (cell)\<close>, while \<open>handleMouseMove\<close> and
  \<open>handleMouseDown\<close> also test \<open>rowIndex < props.data.length\<close>. In the example table
  (three rows) a right click at \<open>y = 135\<close> resolves to row index 3 and the notification is
  emitted, with an undefined row and value.
\<close>

theorem context_menu_beyond_last_row:
  "length (data exampleTable) = 3
   \<and> handleContextMenu fixedPitch exampleTable initialState
        \<lparr>offsetX = 10, offsetY = 135, clientX = 10, clientY = 135\<rparr>
      = Inr [\<lparr>notifiedCell =
               \<lparr>rowIndex = Finite 3, columnIndex = 0, cellValue = Undefined, cellRow = None,
                cellColumn = \<lparr>key = [97], title = [97], width = None\<rparr>\<rparr>,
              notifiedEvent = \<lparr>offsetX = 10, offsetY = 135, clientX = 10, clientY = 135\<rparr>\<rparr>]"
  by (simp add: handleContextMenu_def getCellFromPoint_def cellAt_def initialState_def
        exampleTable_widths rowIndexAt_def rowAt_def Let_def)
     (simp add: exampleTable_def)

text \<open>
  During a resize \<open>handleMouseMove\<close> adds the displacement to the entry of the resized
  column in \<open>state.value.columnWidths\<close> and to no other entry, and leaves the scroll
  offset, and with it the computed \<open>columnWidths\<close>, as they were. The widths that the
  first version renders follow the stored entry, unless the sum is zero.
\<close>

lemma resize_move_stores_delta:
  assumes "isResizing st" and "resizingColumn st = Some c"
  shows "\<exists>st'. handleMouseMove m t st e = Inr st'
     \<and> scrollTop st' = scrollTop st
     \<and> columnWidths (Some m) t (scrollTop st') = columnWidths (Some m) t (scrollTop st)
     \<and> stateColumnWidths st' c = Some (orDefault150 (stateColumnWidths st c) + (offsetX e - startX st))
     \<and> (\<forall>j. j \<noteq> c \<longrightarrow> stateColumnWidths st' j = stateColumnWidths st j)
     \<and> startX st' = offsetX e"
  using assms by (simp add: handleMouseMove_def Let_def)

lemma resize_move_renderedWidthsV1:
  assumes "isResizing st" and "resizingColumn st = Some c" and "c < length (columns t)"
    and "handleMouseMove m t st e = Inr st'"
    and "orDefault150 (stateColumnWidths st c) + (offsetX e - startX st) \<noteq> 0"
  shows "renderedWidthsV1 t st' =
     (renderedWidthsV1 t st)[c := renderedWidthsV1 t st ! c + (offsetX e - startX st)]"
proof (rule nth_equalityI)
  show "length (renderedWidthsV1 t st') =
    length ((renderedWidthsV1 t st)[c := renderedWidthsV1 t st ! c + (offsetX e - startX st)])"
    by (simp add: renderedWidthsV1_def)
next
  fix i
  assume "i < length (renderedWidthsV1 t st')"
  then have i: "i < length (columns t)"
    by (simp add: renderedWidthsV1_def)
  have st': "st' = st\<lparr>stateColumnWidths :=
                       (stateColumnWidths st)(c := Some (orDefault150 (stateColumnWidths st c) + (offsetX e - startX st))),
                    startX := offsetX e\<rparr>"
    using assms(1,2,4) by (simp add: handleMouseMove_def Let_def)
  show "renderedWidthsV1 t st' ! i =
    (renderedWidthsV1 t st)[c := renderedWidthsV1 t st ! c + (offsetX e - startX st)] ! i"
    using i assms(3,5) unfolding st'
    by (auto simp: renderedWidthsV1_def nth_list_update orDefault150_def)
qed

text \<open>
  \<^bold>\<open>Claim C7.\<close> The claim is that a pointer move during a column resize adds the
  horizontal displacement to the resized column's rendered width. The handler adds it
  to \<open>state.value.columnWidths\<close>, which the first version of the component renders
  (150 becomes 160 below), but the component with the computed \<open>columnWidths\<close> never
  reads that object: a press 2 pixels from the border of the 320 pixel column starts
  the resize, the move by 10 pixels stores 160, and the resolved width is 320 before
  and after.
\<close>

theorem resize_leaves_resolved_width:
  "handleMouseDown fixedPitch exampleTable initialState
       \<lparr>offsetX = 318, offsetY = 20, clientX = 318, clientY = 20\<rparr>
     = Inr (initialState\<lparr>resizingColumn := Some 0, isResizing := True, startX := 318\<rparr>)
   \<and> columnWidths (Some fixedPitch) exampleTable
        (scrollTop (initialState\<lparr>resizingColumn := Some 0, isResizing := True, startX := 318\<rparr>))
     = Inr [320]
   \<and> handleMouseMove fixedPitch exampleTable
        (initialState\<lparr>resizingColumn := Some 0, isResizing := True, startX := 318\<rparr>)
        \<lparr>offsetX = 328, offsetY = 20, clientX = 328, clientY = 20\<rparr>
     = Inr (initialState\<lparr>resizingColumn := Some 0, isResizing := True, startX := 328,
              stateColumnWidths := (\<lambda>i. None)(0 := Some 160)\<rparr>)
   \<and> columnWidths (Some fixedPitch) exampleTable
        (scrollTop (initialState\<lparr>resizingColumn := Some 0, isResizing := True, startX := 328,
              stateColumnWidths := (\<lambda>i. None)(0 := Some 160)\<rparr>))
     = Inr [320]
   \<and> renderedWidthsV1 exampleTable
        (initialState\<lparr>resizingColumn := Some 0, isResizing := True, startX := 318\<rparr>) = [150]
   \<and> renderedWidthsV1 exampleTable
        (initialState\<lparr>resizingColumn := Some 0, isResizing := True, startX := 328,
              stateColumnWidths := (\<lambda>i. None)(0 := Some 160)\<rparr>) = [160]"
  by (simp add: handleMouseDown_def isNearColumnBorder_def handleMouseMove_def initialState_def
        exampleTable_widths orDefault150_def renderedWidthsV1_def)
     (simp add: exampleTable_def)

section \<open>Properties of scrolling\<close>

lemma totalWidth_total:
  assumes "0 < rowHeight t" "0 \<le> s"
  shows "\<exists>tw. totalWidth m t s = Inr tw"
  using columnWidths_total[OF assms, where m = m] by (auto simp: totalWidth_def)

lemma thumbHeight_not_NaN:
  assumes "showScrollbar t"
  shows "thumbHeight t \<noteq> NaN"
  using assms by (auto simp: thumbHeight_def showScrollbar_def)

lemma handleWheel_inv:
  assumes rh: "0 < rowHeight t" and top0: "0 \<le> scrollTop st"
    and top1: "scrollTop st \<le> max 0 (contentHeight t - containerHeight t)"
    and left0: "0 \<le> scrollLeft st"
  shows "\<exists>st'. handleWheel m t st e = Inr st'
     \<and> 0 \<le> scrollTop st' \<and> scrollTop st' \<le> max 0 (contentHeight t - containerHeight t)
     \<and> 0 \<le> scrollLeft st'
     \<and> isDraggingScroll st' = isDraggingScroll st
     \<and> (scrollLeft st' \<noteq> scrollLeft st \<longrightarrow>
          (\<exists>tw. totalWidth m t (scrollTop st') = Inr tw
             \<and> scrollLeft st' \<le> max 0 (tw - containerWidth t)))"
proof -
  obtain tw where tw: "totalWidth m t (scrollTop st) = Inr tw"
    using totalWidth_total[OF rh top0] by blast
  show ?thesis
  proof (cases "\<not> shiftKey e \<and> deltaX e = 0")
    case True
    then show ?thesis
      using top1 left0 by (simp add: handleWheel_def)
  next
    case False
    show ?thesis
    proof (cases "shiftKey e \<or> (deltaX e \<noteq> 0 \<and> tw > containerWidth t)")
      case horiz: True
      have "handleWheel m t st e =
          Inr (st\<lparr>scrollLeft := max 0 (min (scrollLeft st + (if deltaX e \<noteq> 0 then deltaX e else deltaY e))
                                     (tw - containerWidth t))\<rparr>)"
        using False horiz tw by (auto simp: handleWheel_def Let_def)
      then show ?thesis
        using top0 top1 tw by auto
    next
      case vert: False
      have "handleWheel m t st e =
          Inr (st\<lparr>scrollTop := max 0 (min (scrollTop st + deltaY e)
                                    (contentHeight t - containerHeight t))\<rparr>)"
        using False vert tw by (auto simp: handleWheel_def Let_def)
      then show ?thesis
        using left0 by auto
    qed
  qed
qed

lemma handleScrollMove_inv:
  assumes top0: "0 \<le> scrollTop st"
    and top1: "scrollTop st \<le> max 0 (contentHeight t - containerHeight t)"
    and drag: "isDraggingScroll st \<longrightarrow> showScrollbar t"
  shows "\<exists>st'. handleScrollMove t st y = Inr st'
     \<and> 0 \<le> scrollTop st' \<and> scrollTop st' \<le> max 0 (contentHeight t - containerHeight t)
     \<and> scrollLeft st' = scrollLeft st
     \<and> isDraggingScroll st' = isDraggingScroll st"
proof (cases "isDraggingScroll st")
  case False
  then show ?thesis
    using top0 top1 by (simp add: handleScrollMove_def)
next
  case True
  then have "thumbHeight t \<noteq> NaN"
    using drag thumbHeight_not_NaN by blast
  then show ?thesis
    using True top0 top1
    by (cases "thumbHeight t") (auto simp: handleScrollMove_def Let_def)
qed

lemma horizontalThumbWidth_total:
  assumes "0 < rowHeight t" "0 \<le> s"
  shows "\<exists>w. horizontalThumbWidth m t s = Inr w"
  using totalWidth_total[OF assms, where m = m] by (auto simp: horizontalThumbWidth_def)

lemma handleHorizontalScrollMove_inv:
  assumes rh: "0 < rowHeight t" and top0: "0 \<le> scrollTop st"
    and left0: "0 \<le> scrollLeft st"
  shows "(case handleHorizontalScrollMove m t st x of
            Inl e \<Rightarrow> e = NaNScroll
          | Inr st' \<Rightarrow> scrollTop st' = scrollTop st \<and> 0 \<le> scrollLeft st'
              \<and> isDraggingScroll st' = isDraggingScroll st
              \<and> (scrollLeft st' \<noteq> scrollLeft st \<longrightarrow>
                   (\<exists>tw. totalWidth m t (scrollTop st') = Inr tw
                      \<and> scrollLeft st' \<le> max 0 (tw - containerWidth t))))"
proof -
  obtain tw where tw: "totalWidth m t (scrollTop st) = Inr tw"
    using totalWidth_total[OF rh top0] by blast
  obtain th where th: "horizontalThumbWidth m t (scrollTop st) = Inr th"
    using horizontalThumbWidth_total[OF rh top0] by blast
  show ?thesis
    using tw th left0
    by (auto simp: handleHorizontalScrollMove_def Let_def)
qed

lemma dispatch_inv:
  assumes rh: "0 < rowHeight t" and top0: "0 \<le> scrollTop st"
    and top1: "scrollTop st \<le> max 0 (contentHeight t - containerHeight t)"
    and left0: "0 \<le> scrollLeft st"
    and drag: "isDraggingScroll st \<longrightarrow> showScrollbar t"
  shows "(case dispatch m t st ev of
            Inl e \<Rightarrow> e = NaNScroll \<and> (\<exists>x. ev = HorizontalScrollMove x)
          | Inr st' \<Rightarrow>
              0 \<le> scrollTop st' \<and> scrollTop st' \<le> max 0 (contentHeight t - containerHeight t)
              \<and> 0 \<le> scrollLeft st'
              \<and> (isDraggingScroll st' \<longrightarrow> showScrollbar t)
              \<and> (scrollLeft st' \<noteq> scrollLeft st \<longrightarrow>
                   (\<exists>tw. totalWidth m t (scrollTop st') = Inr tw
                      \<and> scrollLeft st' \<le> max 0 (tw - containerWidth t))))"
proof (cases ev)
  case (Wheel e)
  from handleWheel_inv[OF rh top0 top1 left0, where m = m and e = e] show ?thesis
    using Wheel drag by auto
next
  case (ScrollStart y)
  then show ?thesis
    using top0 top1 left0 drag by (auto simp: handleScrollStart_def)
next
  case (ScrollMove y)
  from handleScrollMove_inv[OF top0 top1 drag, where y = y] show ?thesis
    using ScrollMove left0 drag by auto
next
  case ScrollEnd
  then show ?thesis
    using top0 top1 left0 by (simp add: handleScrollEnd_def)
next
  case (HorizontalScrollStart x)
  obtain tw where tw: "totalWidth m t (scrollTop st) = Inr tw"
    using totalWidth_total[OF rh top0] by blast
  show ?thesis
    using HorizontalScrollStart tw top0 top1 left0 drag
    by (simp add: showHorizontalScrollbar_def handleHorizontalScrollStart_def)
next
  case (HorizontalScrollMove x)
  from handleHorizontalScrollMove_inv[OF rh top0 left0, where m = m and x = x] show ?thesis
    using HorizontalScrollMove top0 top1 drag by (auto split: sum.splits)
next
  case HorizontalScrollEnd
  then show ?thesis
    using top0 top1 left0 drag by (simp add: handleHorizontalScrollEnd_def)
qed

lemma run_inv:
  assumes rh: "0 < rowHeight t"
  shows "run m t st evs = Inr st' \<Longrightarrow> 0 \<le> scrollTop st \<Longrightarrow>
     scrollTop st \<le> max 0 (contentHeight t - containerHeight t) \<Longrightarrow> 0 \<le> scrollLeft st \<Longrightarrow>
     (isDraggingScroll st \<longrightarrow> showScrollbar t) \<Longrightarrow>
     0 \<le> scrollTop st' \<and> scrollTop st' \<le> max 0 (contentHeight t - containerHeight t)
     \<and> 0 \<le> scrollLeft st' \<and> (isDraggingScroll st' \<longrightarrow> showScrollbar t)"
proof (induction evs arbitrary: st)
  case Nil
  then show ?case by simp
next
  case (Cons ev evs)
  from Cons.prems(1) obtain st1 where d: "dispatch m t st ev = Inr st1"
    and r: "run m t st1 evs = Inr st'"
    by (auto split: sum.splits)
  from dispatch_inv[OF rh Cons.prems(2,3,4,5), where m = m and ev = ev] d
  have "0 \<le> scrollTop st1" "scrollTop st1 \<le> max 0 (contentHeight t - containerHeight t)"
    "0 \<le> scrollLeft st1" "isDraggingScroll st1 \<longrightarrow> showScrollbar t"
    by simp_all
  from Cons.IH[OF r this] show ?case .
qed

lemma run_errors:
  assumes rh: "0 < rowHeight t"
  shows "run m t st evs = Inl e \<Longrightarrow> 0 \<le> scrollTop st \<Longrightarrow>
     scrollTop st \<le> max 0 (contentHeight t - containerHeight t) \<Longrightarrow> 0 \<le> scrollLeft st \<Longrightarrow>
     (isDraggingScroll st \<longrightarrow> showScrollbar t) \<Longrightarrow>
     e = NaNScroll \<and> (\<exists>x. HorizontalScrollMove x \<in> set evs)"
proof (induction evs arbitrary: st)
  case Nil
  then show ?case by simp
next
  case (Cons ev evs)
  show ?case
  proof (cases "dispatch m t st ev")
    case (Inl e')
    with Cons.prems(1) have "e' = e" by simp
    with dispatch_inv[OF rh Cons.prems(2,3,4,5), where m = m and ev = ev] Inl show ?thesis
      by auto
  next
    case (Inr st1)
    with Cons.prems(1) have r: "run m t st1 evs = Inl e" by simp
    from dispatch_inv[OF rh Cons.prems(2,3,4,5), where m = m and ev = ev] Inr
    have "0 \<le> scrollTop st1" "scrollTop st1 \<le> max 0 (contentHeight t - containerHeight t)"
      "0 \<le> scrollLeft st1" "isDraggingScroll st1 \<longrightarrow> showScrollbar t"
      by simp_all
    from Cons.IH[OF r this] show ?thesis by auto
  qed
qed

text \<open>
  Reading the widths can only fail with a TypeError, so a horizontal drag move stores
  NaN only on a track of length zero with no displacement. This happens in the example
  table when the container is 52 pixels wide (12 for the scrollbar and 40 for the
  thumb).
\<close>

lemma visibleRows_error: "visibleRows t s = Inl e \<Longrightarrow> e = TypeError"
  by (auto simp: visibleRows_def split: if_splits)

lemma measureCellWidth_error: "measureCellWidth ctx t s col = Inl e \<Longrightarrow> e = TypeError"
  by (auto simp: measureCellWidth_def Let_def split: option.splits sum.splits
      dest: visibleRows_error)

lemma firstPass_error: "firstPass m t s cols = Inl e \<Longrightarrow> e = TypeError"
proof (induction cols)
  case Nil
  then show ?case by simp
next
  case (Cons col cols)
  then show ?case
    by (auto split: if_splits sum.splits dest: measureCellWidth_error)
qed

lemma totalWidth_error: "totalWidth m t s = Inl e \<Longrightarrow> e = TypeError"
  by (auto simp: totalWidth_def columnWidths_def Let_def split: sum.splits if_splits
      dest: firstPass_error)

lemma horizontal_drag_NaN_only_on_zero_track:
  assumes "handleHorizontalScrollMove m t st x = Inl NaNScroll"
  shows "isDraggingHorizontalScroll st \<and> x = startDragX st
     \<and> horizontalThumbWidth m t (scrollTop st)
         = Inr (containerWidth t - (if showScrollbar t then 12 else 0))"
proof -
  have "totalWidth m t (scrollTop st) \<noteq> Inl NaNScroll"
    using totalWidth_error by force
  then show ?thesis
    using assms
    by (auto simp: handleHorizontalScrollMove_def horizontalThumbWidth_def Let_def
        split: if_splits sum.splits)
qed

lemma horizontal_drag_stores_NaN_on_zero_track:
  "run fixedPitch (exampleTable\<lparr>containerWidth := 52\<rparr>) initialState
     [HorizontalScrollStart 100, HorizontalScrollMove 100] = Inl NaNScroll"
proof -
  have cw: "columnWidths (Some fixedPitch) (exampleTable\<lparr>containerWidth := 52\<rparr>) 0 = Inr [320]"
    by (simp add: eval_defs)
  show ?thesis
    by (simp add: showHorizontalScrollbar_def totalWidth_def cw handleHorizontalScrollStart_def
        handleHorizontalScrollMove_def horizontalThumbWidth_def initialState_def Let_def)
       (simp add: exampleTable_def showScrollbar_def contentHeight_def containerHeight_def)
qed

text \<open>
  \<^bold>\<open>Claim C1\<close> (as amended). Take a table with a positive row height and any sequence
  of wheel and scrollbar-drag events from the initial state, each of which stores a
  number. The next event stores a number too, unless it is a horizontal drag move, during
  a horizontal drag, with no displacement from the start of the drag on a track of
  length zero (the thumb as wide as the track), which stores NaN. After every other
  event \<open>scrollTop\<close> lies between 0 and \<open>max(0, contentHeight - containerHeight)\<close> and
  \<open>scrollLeft\<close> is not negative, and an event that changes \<open>scrollLeft\<close> leaves it at
  most \<open>max(0, totalWidth - containerWidth)\<close> for the total width at the new state.
\<close>

theorem scroll_clamp_after_each_event:
  assumes rh: "0 < rowHeight t" and reach: "run m t initialState evs = Inr st"
  shows "(case dispatch m t st ev of
            Inl e \<Rightarrow> e = NaNScroll
              \<and> (\<exists>x. ev = HorizontalScrollMove x \<and> isDraggingHorizontalScroll st
                     \<and> x = startDragX st
                     \<and> horizontalThumbWidth m t (scrollTop st)
                         = Inr (containerWidth t - (if showScrollbar t then 12 else 0)))
          | Inr st' \<Rightarrow>
              0 \<le> scrollTop st' \<and> scrollTop st' \<le> max 0 (contentHeight t - containerHeight t)
              \<and> 0 \<le> scrollLeft st'
              \<and> (scrollLeft st' \<noteq> scrollLeft st \<longrightarrow>
                   (\<exists>tw. totalWidth m t (scrollTop st') = Inr tw
                      \<and> scrollLeft st' \<le> max 0 (tw - containerWidth t))))"
proof -
  have inv: "0 \<le> scrollTop st \<and> scrollTop st \<le> max 0 (contentHeight t - containerHeight t)
     \<and> 0 \<le> scrollLeft st \<and> (isDraggingScroll st \<longrightarrow> showScrollbar t)"
    by (rule run_inv[OF rh reach]) (simp_all add: initialState_def)
  then have step: "(case dispatch m t st ev of
            Inl e \<Rightarrow> e = NaNScroll \<and> (\<exists>x. ev = HorizontalScrollMove x)
          | Inr st' \<Rightarrow>
              0 \<le> scrollTop st' \<and> scrollTop st' \<le> max 0 (contentHeight t - containerHeight t)
              \<and> 0 \<le> scrollLeft st'
              \<and> (isDraggingScroll st' \<longrightarrow> showScrollbar t)
              \<and> (scrollLeft st' \<noteq> scrollLeft st \<longrightarrow>
                   (\<exists>tw. totalWidth m t (scrollTop st') = Inr tw
                      \<and> scrollLeft st' \<le> max 0 (tw - containerWidth t))))"
    using dispatch_inv[OF rh, where st = st and m = m and ev = ev] by blast
  show ?thesis
  proof (cases "dispatch m t st ev")
    case (Inr st')
    with step show ?thesis
      by simp
  next
    case (Inl e)
    with step obtain x where e: "e = NaNScroll" and ev: "ev = HorizontalScrollMove x"
      by auto
    have "handleHorizontalScrollMove m t st x = Inl NaNScroll"
      using Inl e ev by simp
    from horizontal_drag_NaN_only_on_zero_track[OF this] show ?thesis
      using Inl e ev by simp
  qed
qed

theorem scroll_clamp_after_each_event_witness:
  "run fixedPitch tallTable initialState
      [ScrollStart 5, ScrollMove 15, ScrollEnd, HorizontalScrollStart 100]
     = Inr (initialState\<lparr>scrollTop := 15, startDragY := 5,
              isDraggingHorizontalScroll := True, startDragX := 100\<rparr>)
   \<and> dispatch fixedPitch tallTable
        (initialState\<lparr>scrollTop := 15, startDragY := 5,
           isDraggingHorizontalScroll := True, startDragX := 100\<rparr>)
        (HorizontalScrollMove 147)
     = Inr (initialState\<lparr>scrollTop := 15, scrollLeft := 80, startDragY := 5,
              isDraggingHorizontalScroll := True, startDragX := 100\<rparr>)
   \<and> (case dispatch fixedPitch tallTable
              (initialState\<lparr>scrollTop := 15, startDragY := 5,
                 isDraggingHorizontalScroll := True, startDragX := 100\<rparr>)
              (HorizontalScrollMove 147) of
         Inl e \<Rightarrow> e = NaNScroll
           \<and> (\<exists>x. HorizontalScrollMove 147 = HorizontalScrollMove x
                  \<and> isDraggingHorizontalScroll
                       (initialState\<lparr>scrollTop := 15, startDragY := 5,
                          isDraggingHorizontalScroll := True, startDragX := 100\<rparr>)
                  \<and> x = startDragX
                       (initialState\<lparr>scrollTop := 15, startDragY := 5,
                          isDraggingHorizontalScroll := True, startDragX := 100\<rparr>)
                  \<and> horizontalThumbWidth fixedPitch tallTable
                       (scrollTop (initialState\<lparr>scrollTop := 15, startDragY := 5,
                          isDraggingHorizontalScroll := True, startDragX := 100\<rparr>))
                      = Inr (containerWidth tallTable - (if showScrollbar tallTable then 12 else 0)))
       | Inr st' \<Rightarrow>
           0 \<le> scrollTop st'
           \<and> scrollTop st' \<le> max 0 (contentHeight tallTable - containerHeight tallTable)
           \<and> 0 \<le> scrollLeft st'
           \<and> (scrollLeft st' \<noteq> scrollLeft
                  (initialState\<lparr>scrollTop := 15, startDragY := 5,
                     isDraggingHorizontalScroll := True, startDragX := 100\<rparr>) \<longrightarrow>
                (\<exists>tw. totalWidth fixedPitch tallTable (scrollTop st') = Inr tw
                   \<and> scrollLeft st' \<le> max 0 (tw - containerWidth tallTable))))"
proof -
  have rh: "0 < rowHeight tallTable"
    by (simp add: tallTable_def exampleTable_def)
  have geo: "contentHeight tallTable = 90" "containerHeight tallTable = 60"
    "containerWidth tallTable = 200" "showScrollbar tallTable"
    by (simp_all add: contentHeight_def containerHeight_def showScrollbar_def tallTable_def
        exampleTable_def)
  have tw: "totalWidth fixedPitch tallTable 15 = Inr 320"
    by (simp add: totalWidth_def tallTable_widths)
  have r: "run fixedPitch tallTable initialState
      [ScrollStart 5, ScrollMove 15, ScrollEnd, HorizontalScrollStart 100]
     = Inr (initialState\<lparr>scrollTop := 15, startDragY := 5,
              isDraggingHorizontalScroll := True, startDragX := 100\<rparr>)"
    by (simp add: handleScrollStart_def handleScrollMove_def handleScrollEnd_def thumbHeight_def
        showHorizontalScrollbar_def handleHorizontalScrollStart_def geo tw initialState_def Let_def)
  have d: "dispatch fixedPitch tallTable
        (initialState\<lparr>scrollTop := 15, startDragY := 5,
           isDraggingHorizontalScroll := True, startDragX := 100\<rparr>)
        (HorizontalScrollMove 147)
     = Inr (initialState\<lparr>scrollTop := 15, scrollLeft := 80, startDragY := 5,
              isDraggingHorizontalScroll := True, startDragX := 100\<rparr>)"
    by (simp add: handleHorizontalScrollMove_def horizontalThumbWidth_def geo tw
        initialState_def Let_def)
  show ?thesis
    by (intro conjI r d scroll_clamp_after_each_event[OF rh r])
qed

text \<open>
  The claim as it was stated (after each mutation both offsets are in range) fails
  for \<open>scrollLeft\<close>: the total width depends on the rows in the window, and a vertical
  scroll that shrinks it does not clamp \<open>scrollLeft\<close> again. In the example table a
  shift-wheel moves \<open>scrollLeft\<close> to 120 (total width 320), and the next wheel event
  moves the window past the long row: the total width is 188, below the container
  width, and \<open>scrollLeft\<close> is still 120.
\<close>

theorem scroll_left_exceeds_range_after_vertical_scroll:
  "run fixedPitch exampleTable initialState
      [Wheel \<lparr>shiftKey = True, deltaX = 0, deltaY = 500\<rparr>,
       Wheel \<lparr>shiftKey = False, deltaX = 0, deltaY = 60\<rparr>]
     = Inr (initialState\<lparr>scrollTop := 60, scrollLeft := 120\<rparr>)
   \<and> totalWidth fixedPitch exampleTable 0 = Inr 320
   \<and> totalWidth fixedPitch exampleTable 60 = Inr 188
   \<and> containerWidth exampleTable = 200
   \<and> max 0 (188 - containerWidth exampleTable)
        < scrollLeft (initialState\<lparr>scrollTop := 60, scrollLeft := 120\<rparr>)"
  by (simp add: handleWheel_def initialState_def exampleTable_totalWidth exampleTable_heights)

end
